theory Spec2Isabelle
  imports Main "HOL-Library.Word"
begin

unbundle bit_operations_syntax

section \<open>Data model\<close>

text \<open>
  The protocol engine of the G1 smart-glasses controller
  (\<^verbatim>\<open>src/src/contoller/glasses2.ts\<close>, class \<^verbatim>\<open>EvenRealitiesG1Manager\<close>) and its
  sibling variant \<^verbatim>\<open>src/unnamed/part_002\<close> (the same class with another image
  path). Functions that are textually the same in both files are modelled once;
  where the two files differ the definition taken from \<^verbatim>\<open>glasses2.ts\<close> is
  prefixed \<open>G2_\<close> and the one taken from \<^verbatim>\<open>part_002\<close> is prefixed \<open>P2_\<close>.
  The older controller class kept in \<^verbatim>\<open>GlassesDemo.tsx\<close> is not modelled.

  A \<^verbatim>\<open>Uint8Array\<close> is a list of 8-bit words; a JavaScript string is the list of
  its UTF-16 code units, which is what \<^verbatim>\<open>.length\<close> counts.
\<close>

type_synonym byte = "8 word"
type_synonym jsstring = "16 word list"

text \<open>\<^verbatim>\<open>xs.slice(b, e)\<close> for \<open>0 \<le> b\<close>: the elements from index \<open>b\<close> up to, not
  including, \<open>min e (length xs)\<close>; a fresh copy.\<close>

definition jsSlice :: "nat \<Rightarrow> nat \<Rightarrow> 'a list \<Rightarrow> 'a list" where
  "jsSlice b e xs = take (e - b) (drop b xs)"

section \<open>Text pagination\<close>

text \<open>
  \<^verbatim>\<open>text.split(' ')\<close>: the pieces between separators; an empty text gives one
  empty piece, two adjacent separators give an empty piece between them. The result is
  never empty (\<open>splitOn_nonempty\<close> below), so the \<open>[]\<close> branch of the case is
  never taken.
\<close>

primrec splitOn :: "'a \<Rightarrow> 'a list \<Rightarrow> 'a list list" where
  "splitOn sep [] = [[]]"
| "splitOn sep (c # cs) =
     (if c = sep then [] # splitOn sep cs
      else (case splitOn sep cs of [] \<Rightarrow> [[c]] | w # ws \<Rightarrow> (c # w) # ws))"

definition SPACE :: "16 word" where
  "SPACE = 0x20"

text \<open>
  The width test \<^verbatim>\<open>testLine.length * (21 * 0.6) <= 488\<close>. The source computes it in
  double precision; \<open>21 * 0.6\<close> is \<open>12.6\<close> up to one unit in the last place, so the
  product is at most \<open>478.8\<close> (plus rounding) for a length up to 38 and at least
  \<open>491.4\<close> (minus rounding) from 39 on: rounding never decides the comparison, and
  the test is the exact one \<open>length * 126 \<le> 4880\<close>.
\<close>

definition fitsWidth :: "jsstring \<Rightarrow> bool" where
  "fitsWidth testLine = (length testLine * 126 \<le> 4880)"

text \<open>One iteration of \<^verbatim>\<open>for (const word of words)\<close> in \<^verbatim>\<open>splitTextIntoLines\<close>, on
  the pair of the loop's variables \<^verbatim>\<open>lines\<close> and \<^verbatim>\<open>currentLine\<close>. A string is truthy
  when it is not empty.\<close>

definition lineStep :: "jsstring list \<times> jsstring \<Rightarrow> jsstring \<Rightarrow> jsstring list \<times> jsstring" where
  "lineStep st word =
     (case st of (lines, currentLine) \<Rightarrow>
        (let testLine = (if currentLine \<noteq> [] then currentLine @ [SPACE] @ word else word)
         in if fitsWidth testLine then (lines, testLine)
            else if currentLine \<noteq> [] then (lines @ [currentLine], word)
            else (lines @ [word], currentLine)))"

definition splitTextIntoLines :: "jsstring \<Rightarrow> jsstring list" where
  "splitTextIntoLines text =
     (case foldl lineStep ([], []) (splitOn SPACE text) of
        (lines, currentLine) \<Rightarrow> if currentLine \<noteq> [] then lines @ [currentLine] else lines)"


text \<open>
  \<^verbatim>\<open>splitIntoScreens\<close>:
  \<^verbatim>\<open>for (let i = 0; i < lines.length; i += 5) screens.push(lines.slice(i, i + 5))\<close>.
  \<open>screensFrom i lines\<close> is the list pushed from loop index \<open>i\<close> on.
\<close>

function screensFrom :: "nat \<Rightarrow> 'a list \<Rightarrow> 'a list list" where
  "screensFrom i lines =
     (if i < length lines then jsSlice i (i + 5) lines # screensFrom (i + 5) lines else [])"
  by pat_completeness auto
termination
  by (relation "measure (\<lambda>(i, lines). length lines - i)") auto

declare screensFrom.simps [simp del]

definition splitIntoScreens :: "'a list \<Rightarrow> 'a list list" where
  "splitIntoScreens lines = screensFrom 0 lines"

text \<open>\<^verbatim>\<open>createTextPackets\<close>: the lines joined by \<^verbatim>\<open>'\n'\<close>, encoded, and cut into
  chunks of \<open>194 - 10 = 184\<close> bytes by the same kind of loop. \<^verbatim>\<open>TextEncoder\<close> is the
  platform's UTF-8 encoder; it is a parameter \<open>utf8\<close> of the model.\<close>

fun joinLines :: "jsstring list \<Rightarrow> jsstring" where
  "joinLines [] = []"
| "joinLines [l] = l"
| "joinLines (l # ls) = l @ [0x0A] @ joinLines ls"

function textChunksFrom :: "nat \<Rightarrow> byte list \<Rightarrow> byte list list" where
  "textChunksFrom i textBytes =
     (if i < length textBytes
      then jsSlice i (i + 184) textBytes # textChunksFrom (i + 184) textBytes else [])"
  by pat_completeness auto
termination
  by (relation "measure (\<lambda>(i, textBytes). length textBytes - i)") auto

declare textChunksFrom.simps [simp del]

definition createTextPackets :: "(jsstring \<Rightarrow> byte list) \<Rightarrow> jsstring list \<Rightarrow> byte list list" where
  "createTextPackets utf8 lines = textChunksFrom 0 (utf8 (joinLines lines))"

section \<open>Checksum\<close>

text \<open>
  JavaScript's bitwise operators work on 32-bit integers, so the register \<^verbatim>\<open>crc\<close> is a
  32-bit word. One pass of the inner loop body:
  \<^verbatim>\<open>if (crc & 0x80000000) crc = (crc << 1) ^ polynomial; else crc <<= 1;\<close>
\<close>

definition polynomial :: "32 word" where
  "polynomial = 0x04C11DB7"

definition crcShift :: "32 word \<Rightarrow> 32 word" where
  "crcShift crc =
     (if crc AND 0x80000000 \<noteq> 0 then push_bit 1 crc XOR polynomial else push_bit 1 crc)"

text \<open>\<^verbatim>\<open>for (let j = 0; j < 8; j++)\<close>: \<open>crcBits 8\<close>.\<close>

fun crcBits :: "nat \<Rightarrow> 32 word \<Rightarrow> 32 word" where
  "crcBits 0 crc = crc"
| "crcBits (Suc j) crc = crcBits j (crcShift crc)"

text \<open>The outer loop body: \<^verbatim>\<open>crc ^= data[i] << 24\<close>, then the eight shifts.\<close>

definition crcByte :: "32 word \<Rightarrow> byte \<Rightarrow> 32 word" where
  "crcByte crc b = crcBits 8 (crc XOR push_bit 24 (ucast b))"

text \<open>\<^verbatim>\<open>part_002\<close>: \<^verbatim>\<open>return (~crc) >>> 0\<close>, an unsigned 32-bit number.\<close>

definition P2_calculateCRC32 :: "byte list \<Rightarrow> int" where
  "P2_calculateCRC32 bytes = uint (NOT (foldl crcByte 0xFFFFFFFF bytes))"

text \<open>
  \<^verbatim>\<open>glasses2.ts\<close>: the register first runs over the storage address, then over the
  data; the complemented register is byte-swapped with \<^verbatim>\<open><<\<close>, \<^verbatim>\<open>>>\<close> and \<^verbatim>\<open>|\<close>, whose
  result is a signed 32-bit number.
\<close>

definition storageAddress :: "byte list" where
  "storageAddress = [0x00, 0x1C, 0x00, 0x00]"

definition G2_calculateCRC32 :: "byte list \<Rightarrow> int" where
  "G2_calculateCRC32 bytes =
     (let crc1 = foldl crcByte 0xFFFFFFFF storageAddress;
          crc2 = foldl crcByte crc1 bytes;
          result = NOT crc2
      in sint (push_bit 24 result OR push_bit 8 (result AND 0xFF00)
               OR drop_bit 8 (result AND 0xFF0000) OR drop_bit 24 result))"

text \<open>\<^verbatim>\<open>uint32ToBytes\<close>: \<^verbatim>\<open>>>>\<close> reads the number as an unsigned 32-bit integer.\<close>

definition uint32ToBytes :: "int \<Rightarrow> byte list" where
  "uint32ToBytes v =
     (let w = (word_of_int v :: 32 word)
      in [ucast (drop_bit 24 w), ucast (drop_bit 16 w), ucast (drop_bit 8 w), ucast w])"

text \<open>
  The checksum as the specification words it, on integers: the register starts at
  \<open>0xFFFFFFFF\<close>; each byte is XORed into bits 31..24 and is followed by 8 steps that
  shift left (within 32 bits) and XOR the polynomial \<open>0x04C11DB7\<close> when bit 31 was set;
  the result is the one's complement of the register, masked to 32 bits.
\<close>

definition refStep :: "int \<Rightarrow> int" where
  "refStep r =
     (if bit r 31 then take_bit 32 (push_bit 1 r) XOR 0x04C11DB7 else take_bit 32 (push_bit 1 r))"

definition refByte :: "int \<Rightarrow> int \<Rightarrow> int" where
  "refByte r b = (refStep ^^ 8) (r XOR push_bit 24 b)"

definition refCRC32 :: "int list \<Rightarrow> int" where
  "refCRC32 bs = take_bit 32 (NOT (foldl refByte 0xFFFFFFFF bs))"

section \<open>Image packets\<close>

text \<open>
  \<^verbatim>\<open>createBMPPackets\<close> of \<^verbatim>\<open>glasses2.ts\<close>: \<^verbatim>\<open>chunkSize = 194 - 2\<close>; packet 0 is
  \<^verbatim>\<open>SEND_BITMAP\<close>, the index, the storage address and the chunk; the others are
  \<^verbatim>\<open>SEND_BITMAP\<close>, the index \<^verbatim>\<open>Math.floor(i / chunkSize) & 0xFF\<close> and the chunk.
\<close>

definition SEND_BITMAP :: byte where
  "SEND_BITMAP = 0x15"

function G2_packetsFrom :: "nat \<Rightarrow> byte list \<Rightarrow> byte list list" where
  "G2_packetsFrom i imageData =
     (if i < length imageData
      then (if i = 0
            then [SEND_BITMAP, of_nat (i div 192), 0x00, 0x1c, 0x00, 0x00]
                 @ jsSlice i (i + 192) imageData
            else [SEND_BITMAP, of_nat (i div 192)] @ jsSlice i (i + 192) imageData)
           # G2_packetsFrom (i + 192) imageData
      else [])"
  by pat_completeness auto
termination
  by (relation "measure (\<lambda>(i, imageData). length imageData - i)") auto

declare G2_packetsFrom.simps [simp del]

definition G2_createBMPPackets :: "byte list \<Rightarrow> byte list list" where
  "G2_createBMPPackets imageData = G2_packetsFrom 0 imageData"

text \<open>\<^verbatim>\<open>createBMPPackets\<close> of \<^verbatim>\<open>part_002\<close>: the same loop in steps of 193, the first
  packet chosen by \<^verbatim>\<open>packetIndex === 0\<close>.\<close>

function P2_packetsFrom :: "nat \<Rightarrow> byte list \<Rightarrow> byte list list" where
  "P2_packetsFrom i imageData =
     (if i < length imageData
      then (if i div 193 = 0
            then [SEND_BITMAP, of_nat (i div 193)] @ [0x00, 0x1c, 0x00, 0x00]
                 @ jsSlice i (i + 193) imageData
            else [SEND_BITMAP, of_nat (i div 193)] @ jsSlice i (i + 193) imageData)
           # P2_packetsFrom (i + 193) imageData
      else [])"
  by pat_completeness auto
termination
  by (relation "measure (\<lambda>(i, imageData). length imageData - i)") auto

declare P2_packetsFrom.simps [simp del]

definition P2_createBMPPackets :: "byte list \<Rightarrow> byte list list" where
  "P2_createBMPPackets imageData = P2_packetsFrom 0 imageData"

section \<open>The manager and the transport\<close>

text \<open>
  The fields of \<^verbatim>\<open>EvenRealitiesG1Manager\<close> that the modelled operations read or write.
  A device or characteristic object is an opaque handle. \<open>written\<close> is not a field of
  the class: it is the transport's record of the calls of \<^verbatim>\<open>writeWithResponse\<close>, in
  order, each with the arm whose characteristic was written and the bytes.
\<close>

datatype arm = LeftArm | RightArm

datatype error = PayloadTooLarge | TransportWriteError

record manager =
  leftDevice :: "nat option"
  rightDevice :: "nat option"
  leftTxCharacteristic :: "nat option"
  rightTxCharacteristic :: "nat option"
  isConnected :: bool
  sequenceNumber :: nat
  isInCase :: bool
  isCaseOpen :: bool
  isGlassesWorn :: bool
  isGlassesCharging :: bool
  isInSilentMode :: bool
  written :: "(arm \<times> byte list) list"

text \<open>The manager as the constructor leaves it.\<close>

definition newManager :: manager where
  "newManager =
     \<lparr>leftDevice = None, rightDevice = None,
      leftTxCharacteristic = None, rightTxCharacteristic = None,
      isConnected = False, sequenceNumber = 0,
      isInCase = False, isCaseOpen = False, isGlassesWorn = False,
      isGlassesCharging = False, isInSilentMode = False, written = []\<rparr>"

text \<open>
  The transport decides whether a write is acknowledged: \<open>acks k\<close> tells whether the
  \<open>k\<close>-th call of \<^verbatim>\<open>writeWithResponse\<close> of the session (counted from 0) resolves; when
  it does not, the promise rejects. An asynchronous operation is a function from the
  manager to its outcome (\<open>Inl\<close> a rejection) and the manager afterwards.
\<close>

type_synonym transport = "nat \<Rightarrow> bool"

type_synonym 'a async = "manager \<Rightarrow> (error + 'a) \<times> manager"

definition allAcknowledged :: transport where
  "allAcknowledged k = True"

definition writeToCharacteristic :: "transport \<Rightarrow> arm \<Rightarrow> byte list \<Rightarrow> manager \<Rightarrow> bool \<times> manager" where
  "writeToCharacteristic acks side bytes s =
     (acks (length (written s)), s\<lparr>written := written s @ [(side, bytes)]\<rparr>)"

text \<open>\<^verbatim>\<open>sendCommand\<close>: both writes are started, left first, before \<^verbatim>\<open>Promise.all\<close> waits
  for them; an absent characteristic is skipped silently.\<close>

definition sendCommand :: "transport \<Rightarrow> byte list \<Rightarrow> bool \<Rightarrow> bool \<Rightarrow> unit async" where
  "sendCommand acks bytes toLeft toRight s =
     (case (if toLeft \<and> leftTxCharacteristic s \<noteq> None
            then writeToCharacteristic acks LeftArm bytes s else (True, s)) of
        (okLeft, s1) \<Rightarrow>
          (case (if toRight \<and> rightTxCharacteristic s1 \<noteq> None
                 then writeToCharacteristic acks RightArm bytes s1 else (True, s1)) of
             (okRight, s2) \<Rightarrow>
               (if okLeft \<and> okRight then Inr () else Inl TransportWriteError, s2)))"

text \<open>\<^verbatim>\<open>await f; await g\<close>: a rejection of \<open>f\<close> skips \<open>g\<close>.\<close>

definition andThen :: "unit async \<Rightarrow> 'a async \<Rightarrow> 'a async" where
  "andThen f g s = (case f s of (Inl e, s1) \<Rightarrow> (Inl e, s1) | (Inr u, s1) \<Rightarrow> g s1)"

section \<open>Commands of the public interface\<close>

definition SET_BRIGHTNESS :: byte where "SET_BRIGHTNESS = 0x01"
definition SET_SILENT_MODE :: byte where "SET_SILENT_MODE = 0x03"
definition CLEAR_SCREEN :: byte where "CLEAR_SCREEN = 0x18"
definition GET_BATTERY :: byte where "GET_BATTERY = 0x2C"
definition SEND_NOTIFICATION :: byte where "SEND_NOTIFICATION = 0x4B"
definition SEND_TEXT :: byte where "SEND_TEXT = 0x4E"
definition DEVICE_EVENTS :: byte where "DEVICE_EVENTS = 0xF5"
definition CRC_CHECK :: byte where "CRC_CHECK = 0x16"
definition BMP_TRANSMISSION_END :: "byte list" where "BMP_TRANSMISSION_END = [0x20, 0x0d, 0x0e]"
definition NEW_CONTENT :: byte where "NEW_CONTENT = 0x01"
definition TEXT_SHOW :: byte where "TEXT_SHOW = 0x70"

text \<open>\<^verbatim>\<open>sendNotification\<close>: \<open>jsonBytes\<close> is the encoded \<^verbatim>\<open>JSON.stringify\<close> of the
  notification, made by the platform; the size check throws before any write.\<close>

definition sendNotification :: "transport \<Rightarrow> byte list \<Rightarrow> unit async" where
  "sendNotification acks jsonBytes s =
     (if 180 < length jsonBytes then (Inl PayloadTooLarge, s)
      else sendCommand acks ([SEND_NOTIFICATION, 0x00, 0x01, 0x00] @ jsonBytes) True False s)"

text \<open>\<^verbatim>\<open>setBrightness\<close>: the level is clamped by \<^verbatim>\<open>Math.max(0, Math.min(42, brightness))\<close>
  and goes to the right arm only.\<close>

definition setBrightness :: "transport \<Rightarrow> int \<Rightarrow> bool \<Rightarrow> unit async" where
  "setBrightness acks brightness autoMode s =
     sendCommand acks
       [SET_BRIGHTNESS, word_of_int (max 0 (min 42 brightness)), if autoMode then 0x01 else 0x00]
       False True s"

definition setSilentMode :: "transport \<Rightarrow> bool \<Rightarrow> unit async" where
  "setSilentMode acks enabled s =
     sendCommand acks [SET_SILENT_MODE, if enabled then 0x0C else 0x0A] True True s"

definition clearScreen :: "transport \<Rightarrow> unit async" where
  "clearScreen acks s = sendCommand acks [CLEAR_SCREEN] True True s"

definition getBatteryStatus :: "transport \<Rightarrow> unit async" where
  "getBatteryStatus acks s = sendCommand acks [GET_BATTERY, 0x01] True True s"

text \<open>
  \<^verbatim>\<open>disconnect\<close>: the flag is cleared first; \<^verbatim>\<open>cancelConnection\<close> of a device may throw
  (\<open>cancelLeft\<close>, \<open>cancelRight\<close> tell whether it succeeds), and the \<^verbatim>\<open>catch\<close> then leaves
  everything after the throwing statement undone.
\<close>

definition disconnect :: "bool \<Rightarrow> bool \<Rightarrow> manager \<Rightarrow> manager" where
  "disconnect cancelLeft cancelRight s =
     (let s1 = s\<lparr>isConnected := False\<rparr>
      in if leftDevice s1 \<noteq> None \<and> \<not> cancelLeft then s1
         else (let s2 = s1\<lparr>leftDevice := None\<rparr>
               in if rightDevice s2 \<noteq> None \<and> \<not> cancelRight then s2
                  else s2\<lparr>rightDevice := None,
                          leftTxCharacteristic := None, rightTxCharacteristic := None\<rparr>))"

section \<open>Text frames\<close>

text \<open>
  \<^verbatim>\<open>this.sequenceNumber++\<close> on a number that holds a natural number: exact below
  \<open>2^53\<close>; at \<open>2^53\<close> the sum \<open>2^53 + 1\<close> is not a double and rounds back to \<open>2^53\<close>.
\<close>

definition jsIncrement :: "nat \<Rightarrow> nat" where
  "jsIncrement n = (if n < 2 ^ 53 then n + 1 else n)"

text \<open>\<^verbatim>\<open>createTextPacket\<close>: storing a number into a \<^verbatim>\<open>Uint8Array\<close> keeps it modulo 256,
  which is \<open>of_nat\<close> into an 8-bit word.\<close>

definition createTextPacket ::
  "byte list \<Rightarrow> nat \<Rightarrow> nat \<Rightarrow> nat \<Rightarrow> nat \<Rightarrow> manager \<Rightarrow> byte list \<times> manager" where
  "createTextPacket bytes currentPacket totalPackets currentPage maxPages s =
     (let sequence = sequenceNumber s;
          s1 = s\<lparr>sequenceNumber := jsIncrement (sequenceNumber s)\<rparr>;
          newScreen = NEW_CONTENT OR TEXT_SHOW;
          header = [SEND_TEXT, of_nat sequence, of_nat totalPackets, of_nat currentPacket,
                    newScreen, 0, 0, of_nat currentPage, of_nat maxPages]
      in (header @ bytes, s1))"

text \<open>
  \<^verbatim>\<open>sendText\<close> of \<^verbatim>\<open>part_002\<close>. The inner loop over the packets of one screen, from
  \<open>packetIndex\<close> on, and the outer loop over the screens, from \<open>screenIndex\<close> on; a
  rejected write ends both of them. \<^verbatim>\<open>position & 0xFF\<close> and \<^verbatim>\<open>(position >> 8) & 0xFF\<close>
  are the two low bytes of the integer \<open>position\<close>.
\<close>

fun P2_sendTextPackets ::
  "transport \<Rightarrow> int \<Rightarrow> nat \<Rightarrow> nat \<Rightarrow> nat \<Rightarrow> nat \<Rightarrow> byte list list \<Rightarrow> unit async" where
  "P2_sendTextPackets acks position screenIndex nScreens nPackets packetIndex [] s = (Inr (), s)"
| "P2_sendTextPackets acks position screenIndex nScreens nPackets packetIndex (chunk # rest) s =
     (case createTextPacket chunk packetIndex nPackets screenIndex nScreens s of
        (packet, s1) \<Rightarrow>
          (case sendCommand acks
                  (packet[5 := word_of_int position, 6 := word_of_int (drop_bit 8 position)])
                  True True s1 of
             (Inl e, s2) \<Rightarrow> (Inl e, s2)
           | (Inr u, s2) \<Rightarrow>
               P2_sendTextPackets acks position screenIndex nScreens nPackets
                 (Suc packetIndex) rest s2))"

fun P2_sendScreens ::
  "transport \<Rightarrow> (jsstring \<Rightarrow> byte list) \<Rightarrow> int \<Rightarrow> nat \<Rightarrow> nat \<Rightarrow> jsstring list list \<Rightarrow> unit async" where
  "P2_sendScreens acks utf8 position nScreens screenIndex [] s = (Inr (), s)"
| "P2_sendScreens acks utf8 position nScreens screenIndex (screen # rest) s =
     (let packets = createTextPackets utf8 screen
      in case P2_sendTextPackets acks position screenIndex nScreens (length packets) 0 packets s of
           (Inl e, s1) \<Rightarrow> (Inl e, s1)
         | (Inr u, s1) \<Rightarrow> P2_sendScreens acks utf8 position nScreens (Suc screenIndex) rest s1)"

text \<open>The \<^verbatim>\<open>try\<close>/\<^verbatim>\<open>catch\<close> of \<^verbatim>\<open>part_002\<close> turns a rejection into \<^verbatim>\<open>false\<close>.\<close>

definition P2_sendText ::
  "transport \<Rightarrow> (jsstring \<Rightarrow> byte list) \<Rightarrow> jsstring \<Rightarrow> int \<Rightarrow> manager \<Rightarrow> bool \<times> manager" where
  "P2_sendText acks utf8 text position s =
     (if \<not> isConnected s then (False, s)
      else (let textLines = splitTextIntoLines text;
                screens = splitIntoScreens textLines
            in case P2_sendScreens acks utf8 position (length screens) 0 screens s of
                 (Inl e, s1) \<Rightarrow> (False, s1)
               | (Inr u, s1) \<Rightarrow> (True, s1)))"

text \<open>
  \<^verbatim>\<open>sendText\<close> of \<^verbatim>\<open>glasses2.ts\<close>, for integral \<open>x\<close> and \<open>y\<close> (the screen passes the
  results of \<^verbatim>\<open>parseInt\<close>). \<^verbatim>\<open>LINE_HEIGHT = 21 * 1.2\<close> is the double nearest to 25.2
  and \<^verbatim>\<open>screenIndex * 5 * LINE_HEIGHT\<close> rounds to the integer \<open>126 * screenIndex\<close>;
  \<^verbatim>\<open>Math.min(x, 488 - 21 * 0.6)\<close> is \<open>x\<close> up to 475 and 475.4 above, which the bitwise
  operators truncate to 475. Bytes 4 to 8 of the packet are overwritten; there is no
  \<^verbatim>\<open>try\<close>, so a rejected write rejects the call.
\<close>

fun G2_sendTextPackets ::
  "transport \<Rightarrow> int \<Rightarrow> int \<Rightarrow> bool \<Rightarrow> nat \<Rightarrow> nat \<Rightarrow> nat \<Rightarrow> nat \<Rightarrow> byte list list \<Rightarrow> unit async" where
  "G2_sendTextPackets acks x y replace screenIndex nScreens nPackets packetIndex [] s = (Inr (), s)"
| "G2_sendTextPackets acks x y replace screenIndex nScreens nPackets packetIndex (chunk # rest) s =
     (let screenStatus = (if replace then TEXT_SHOW else NEW_CONTENT OR TEXT_SHOW)
      in case createTextPacket chunk packetIndex nPackets screenIndex nScreens s of
        (packet, s1) \<Rightarrow>
          (let screenY = y + int screenIndex * 126;
               adjustedX = min x 475
           in case sendCommand acks
                  (packet[4 := screenStatus,
                          5 := word_of_int adjustedX, 6 := word_of_int (drop_bit 8 adjustedX),
                          7 := word_of_int screenY, 8 := word_of_int (drop_bit 8 screenY)])
                  True True s1 of
             (Inl e, s2) \<Rightarrow> (Inl e, s2)
           | (Inr u, s2) \<Rightarrow>
               G2_sendTextPackets acks x y replace screenIndex nScreens nPackets
                 (Suc packetIndex) rest s2))"

fun G2_sendScreens ::
  "transport \<Rightarrow> (jsstring \<Rightarrow> byte list) \<Rightarrow> int \<Rightarrow> int \<Rightarrow> bool \<Rightarrow> nat \<Rightarrow> nat \<Rightarrow> jsstring list list
     \<Rightarrow> unit async" where
  "G2_sendScreens acks utf8 x y replace nScreens screenIndex [] s = (Inr (), s)"
| "G2_sendScreens acks utf8 x y replace nScreens screenIndex (screen # rest) s =
     (let packets = createTextPackets utf8 screen
      in case G2_sendTextPackets acks x y replace screenIndex nScreens (length packets) 0 packets s of
           (Inl e, s1) \<Rightarrow> (Inl e, s1)
         | (Inr u, s1) \<Rightarrow> G2_sendScreens acks utf8 x y replace nScreens (Suc screenIndex) rest s1)"

definition G2_sendText ::
  "transport \<Rightarrow> (jsstring \<Rightarrow> byte list) \<Rightarrow> jsstring \<Rightarrow> int \<Rightarrow> int \<Rightarrow> bool \<Rightarrow> bool async" where
  "G2_sendText acks utf8 text x y replace s =
     (if \<not> isConnected s then (Inr False, s)
      else (let lines = splitTextIntoLines text;
                screens = splitIntoScreens lines
            in case G2_sendScreens acks utf8 x y replace (length screens) 0 screens s of
                 (Inl e, s1) \<Rightarrow> (Inl e, s1)
               | (Inr u, s1) \<Rightarrow> (Inr True, s1)))"

section \<open>Image transfer\<close>

record BMPImageData =
  width :: int
  height :: int
  data :: "byte list"

text \<open>The packet loop of \<^verbatim>\<open>sendBMPImage\<close>, the same in both files: each packet goes to
  the left arm, then to the right arm.\<close>

fun sendPackets :: "transport \<Rightarrow> byte list list \<Rightarrow> unit async" where
  "sendPackets acks [] s = (Inr (), s)"
| "sendPackets acks (packet # rest) s =
     (case sendCommand acks packet True False s of
        (Inl e, s1) \<Rightarrow> (Inl e, s1)
      | (Inr u, s1) \<Rightarrow>
          (case sendCommand acks packet False True s1 of
             (Inl e, s2) \<Rightarrow> (Inl e, s2)
           | (Inr u, s2) \<Rightarrow> sendPackets acks rest s2))"

text \<open>
  \<^verbatim>\<open>convertTo1BitBMP\<close> allocates \<open>72 * 136\<close> zero bytes and copies each source row into
  \<^verbatim>\<open>bmpData.slice(...)\<close>, which is a copy of the row and not a view of it, so the
  returned array stays all zero whatever the input is.
\<close>

definition convertTo1BitBMP :: "byte list \<Rightarrow> byte list" where
  "convertTo1BitBMP bytes = replicate (72 * 136) 0"

definition G2_sendBMPImage :: "transport \<Rightarrow> BMPImageData \<Rightarrow> manager \<Rightarrow> bool \<times> manager" where
  "G2_sendBMPImage acks imageData s =
     (if \<not> isConnected s then (False, s)
      else if width imageData \<noteq> 576 \<or> height imageData \<noteq> 136 then (False, s)
      else (let bmpData = convertTo1BitBMP (data imageData);
                packets = G2_createBMPPackets (data imageData);
                endCommand = [0x20, 0x0d, 0x0e];
                crcData = [0x00, 0x1c, 0x00, 0x00] @ bmpData;
                crc = G2_calculateCRC32 crcData;
                crcCommand = CRC_CHECK # uint32ToBytes crc
            in case andThen (sendPackets acks packets)
                   (andThen (sendCommand acks endCommand True False)
                   (andThen (sendCommand acks endCommand False True)
                   (andThen (sendCommand acks crcCommand True False)
                            (sendCommand acks crcCommand False True)))) s of
                 (Inl e, s1) \<Rightarrow> (False, s1)
               | (Inr u, s1) \<Rightarrow> (True, s1)))"

text \<open>\<^verbatim>\<open>part_002\<close>: the end command is \<^verbatim>\<open>new Uint8Array(1)\<close> holding
  \<^verbatim>\<open>COMMANDS.BMP_TRANSMISSION_END[0]\<close>.\<close>

definition P2_sendBMPImage :: "transport \<Rightarrow> BMPImageData \<Rightarrow> manager \<Rightarrow> bool \<times> manager" where
  "P2_sendBMPImage acks imageData s =
     (if \<not> isConnected s then (False, s)
      else if 488 < width imageData then (False, s)
      else (let packets = P2_createBMPPackets (data imageData);
                endCommand = [hd BMP_TRANSMISSION_END];
                crc = P2_calculateCRC32 (data imageData);
                crcCommand = CRC_CHECK # uint32ToBytes crc
            in case andThen (sendPackets acks packets)
                   (andThen (sendCommand acks endCommand True False)
                   (andThen (sendCommand acks endCommand False True)
                   (andThen (sendCommand acks crcCommand True False)
                            (sendCommand acks crcCommand False True)))) s of
                 (Inl e, s1) \<Rightarrow> (False, s1)
               | (Inr u, s1) \<Rightarrow> (True, s1)))"

section \<open>Inbound notifications\<close>

record BatteryInfo =
  percentage :: nat
  isCharging :: bool
  voltage :: "nat option"

text \<open>What a handler passes to every registered callback, in registration order.\<close>

datatype emitted = DeviceEvent byte "byte list" | BatteryUpdate BatteryInfo bool

text \<open>
  \<^verbatim>\<open>handleBatteryUpdate\<close>. \<^verbatim>\<open>bytes[5]\<close> of a five-byte array is \<^verbatim>\<open>undefined\<close>, which \<^verbatim>\<open>|\<close>
  reads as 0.
\<close>

definition handleBatteryUpdate :: "byte list \<Rightarrow> bool \<Rightarrow> emitted option" where
  "handleBatteryUpdate bytes isLeft =
     (if length bytes < 4 then None
      else Some (BatteryUpdate
        \<lparr>percentage = unat (bytes ! 3),
         isCharging = (bytes ! 2 AND 0x01 \<noteq> 0),
         voltage = (if 4 < length bytes
                    then Some (push_bit 8 (unat (bytes ! 4))
                               OR (if 5 < length bytes then unat (bytes ! 5) else 0))
                    else None)\<rparr>
        isLeft))"

text \<open>
  \<^verbatim>\<open>mapTypeToCommand\<close>: the label of a device event, with the state changes the
  \<^verbatim>\<open>switch\<close> makes on the way. \<^verbatim>\<open>this.clearScreen()\<close> is called without \<^verbatim>\<open>await\<close>: its
  writes are started at once and its outcome is dropped.
\<close>

definition mapTypeToCommand :: "transport \<Rightarrow> byte \<Rightarrow> manager \<Rightarrow> string \<times> manager" where
  "mapTypeToCommand acks type s =
     (if type = 0x00 then (''TouchPad Double Tap'', s)
      else if type = 0x01 then (''TouchPad Single Tap'', s)
      else if type = 0x02 then (''Head Up'', s)
      else if type = 0x03 then (''Head Down'', s)
      else if type = 0x04 then
        (''TouchPad Triple Tap'', s\<lparr>isGlassesWorn := True, isInSilentMode := True\<rparr>)
      else if type = 0x05 then
        (''TouchPad Triple Tap'', s\<lparr>isGlassesWorn := True, isInSilentMode := False\<rparr>)
      else if type = 0x06 then (''Glasses are worn'', s\<lparr>isGlassesWorn := True\<rparr>)
      else if type = 0x07 then
        (''Glasses taken off, not in box'', s\<lparr>isGlassesWorn := False\<rparr>)
      else if type = 0x08 then
        (''Put in case, lid open'', s\<lparr>isInCase := True, isCaseOpen := True\<rparr>)
      else if type = 0x09 then (''Charging Status Change'', s\<lparr>isGlassesCharging := True\<rparr>)
      else if type = 0x0B then
        (''Put in case, lid closed'', s\<lparr>isInCase := True, isCaseOpen := False\<rparr>)
      else if type = 0x0E then
        (''Case Charging Status Change'', s\<lparr>isGlassesCharging := False\<rparr>)
      else if type = 0x0F then (''Case Battery Percent'', s\<lparr>isGlassesCharging := False\<rparr>)
      else if type = 0x11 then (''BLE Paired Success'', s\<lparr>isGlassesWorn := True\<rparr>)
      else if type = 0x12 then
        (''Right TouchPad pressed, held and released'', s\<lparr>isGlassesWorn := True\<rparr>)
      else if type = 0x17 then
        (''Left TouchPad pressed and held'',
         snd (clearScreen acks (s\<lparr>isGlassesWorn := True\<rparr>)))
      else if type = 0x18 then
        (''Left TouchPad pressed Released'',
         snd (clearScreen acks (s\<lparr>isGlassesWorn := True\<rparr>)))
      else if type = 0x1E then (''Open Dashboard (double tap)'', s\<lparr>isGlassesWorn := True\<rparr>)
      else if type = 0x1F then (''Close Dashboard (double tap)'', s)
      else if type = 0x20 then (''Double tap (translate/transcribe mode)'', s)
      else (''Unknown event'', s))"

text \<open>\<^verbatim>\<open>handleDeviceEvent\<close>: the label is only logged; the callbacks get the sub-command
  and the bytes after it.\<close>

definition handleDeviceEvent :: "transport \<Rightarrow> byte list \<Rightarrow> manager \<Rightarrow> emitted option \<times> manager" where
  "handleDeviceEvent acks bytes s =
     (if length bytes < 2 then (None, s)
      else (let subCommand = bytes ! 1
            in case mapTypeToCommand acks subCommand s of
                 (label, s1) \<Rightarrow> (Some (DeviceEvent subCommand (drop 2 bytes)), s1)))"

text \<open>\<^verbatim>\<open>handleNotification\<close>, on the bytes that the base64 payload decodes to. The first
  byte of an empty payload is \<^verbatim>\<open>undefined\<close> and matches no case.\<close>

definition handleNotification ::
  "transport \<Rightarrow> byte list \<Rightarrow> bool \<Rightarrow> manager \<Rightarrow> emitted option \<times> manager" where
  "handleNotification acks bytes isLeft s =
     (case bytes of
        [] \<Rightarrow> (None, s)
      | command # rest \<Rightarrow>
          if command = DEVICE_EVENTS then handleDeviceEvent acks bytes s
          else if command = GET_BATTERY then (handleBatteryUpdate bytes isLeft, s)
          else (None, s))"

section \<open>Concrete inputs\<close>

text \<open>A text of three words whose middle word has 39 characters.\<close>

definition longWord :: jsstring where
  "longWord =
    [0x78, 0x78, 0x78, 0x78, 0x78, 0x78, 0x78, 0x78, 0x78, 0x78, 0x78, 0x78, 0x78,
     0x78, 0x78, 0x78, 0x78, 0x78, 0x78, 0x78, 0x78, 0x78, 0x78, 0x78, 0x78, 0x78,
     0x78, 0x78, 0x78, 0x78, 0x78, 0x78, 0x78, 0x78, 0x78, 0x78, 0x78, 0x78, 0x78]"

definition wrapDemo :: jsstring where
  "wrapDemo = [0x61, 0x62, 0x20] @ longWord @ [0x20, 0x63, 0x64]"

text \<open>Image payloads of 193 and of 400 bytes.\<close>

definition image193 :: "byte list" where
  "image193 = replicate 193 0"

definition image400 :: "byte list" where
  "image400 = replicate 400 7"

text \<open>
  A manager as a successful \<^verbatim>\<open>connectToGlasses\<close> leaves it (both devices and both TX
  characteristics found, the flag set), with the transport's record started afresh;
  the same manager after 254 frames; and the manager that \<^verbatim>\<open>disconnect\<close> leaves
  behind when \<^verbatim>\<open>cancelConnection\<close> of the left device throws.
\<close>

definition connectedManager :: manager where
  "connectedManager =
     newManager\<lparr>leftDevice := Some 1, rightDevice := Some 2,
                leftTxCharacteristic := Some 1, rightTxCharacteristic := Some 2,
                isConnected := True\<rparr>"

definition manager254 :: manager where
  "manager254 = connectedManager\<lparr>sequenceNumber := 254\<rparr>"

definition halfDisconnected :: manager where
  "halfDisconnected = disconnect False True connectedManager"

text \<open>Three calls of \<^verbatim>\<open>createTextPacket\<close>: payload, packet index, packet count, page,
  page count.\<close>

definition threeCalls :: "(byte list \<times> nat \<times> nat \<times> nat \<times> nat) list" where
  "threeCalls = [([0x61], 0, 3, 0, 1), ([0x62], 1, 3, 0, 1), ([0x63], 2, 3, 0, 1)]"

text \<open>Images: three bytes declared 100 pixels wide, and a payload of 54 + 9792 bytes
  declared 576 by 136.\<close>

definition smallImage :: BMPImageData where
  "smallImage = \<lparr>width = 100, height = 1, data = [0x01, 0x02, 0x03]\<rparr>"

definition image576 :: BMPImageData where
  "image576 = \<lparr>width = 576, height = 136, data = replicate 9846 0\<rparr>"

definition image500 :: BMPImageData where
  "image500 = \<lparr>width = 500, height = 136, data = replicate 9846 0\<rparr>"

text \<open>An image of the size that the demo screen sends: declared 488 by 64, with three
  bytes a pixel.\<close>

definition demoImage :: BMPImageData where
  "demoImage = \<lparr>width = 488, height = 64, data = replicate (488 * 64 * 3) 0\<rparr>"

section \<open>Auxiliary definitions for the proofs\<close>

text \<open>A line is acceptable when it fits, or is one of the words of the text (so has
  no space in it) and does not fit.\<close>

definition lineOk :: "jsstring list \<Rightarrow> jsstring \<Rightarrow> bool" where
  "lineOk ws l = (fitsWidth l \<or> (l \<in> set ws \<and> SPACE \<notin> set l \<and> \<not> fitsWidth l))"

text \<open>The byte swap in the \<^verbatim>\<open>return\<close> statement of \<^verbatim>\<open>calculateCRC32\<close> of
  \<^verbatim>\<open>glasses2.ts\<close>, on the 32-bit word.\<close>

definition swapBytes :: "32 word \<Rightarrow> 32 word" where
  "swapBytes w = push_bit 24 w OR push_bit 8 (w AND 0xFF00)
               OR drop_bit 8 (w AND 0xFF0000) OR drop_bit 24 w"

text \<open>Frames built back to back: consecutive calls of \<^verbatim>\<open>createTextPacket\<close> on one
  manager, each with its own arguments; the list of the packets returned.\<close>

fun framesBackToBack ::
  "(byte list \<times> nat \<times> nat \<times> nat \<times> nat) list \<Rightarrow> manager \<Rightarrow> byte list list" where
  "framesBackToBack [] s = []"
| "framesBackToBack ((bytes, currentPacket, totalPackets, currentPage, maxPages) # rest) s =
     (case createTextPacket bytes currentPacket totalPackets currentPage maxPages s of
        (packet, s1) \<Rightarrow> packet # framesBackToBack rest s1)"

text \<open>The two entries that a command sent to the left arm and then to the right arm
  leaves in the transport's record.\<close>

definition toBothArms :: "byte list \<Rightarrow> (arm \<times> byte list) list" where
  "toBothArms bytes = [(LeftArm, bytes), (RightArm, bytes)]"

section \<open>Properties of the pagination\<close>

lemma ceil_div_step:
  fixes n i k :: nat
  assumes "0 < k" and "i < n"
  shows "Suc ((n - (i + k) + (k - 1)) div k) = (n - i + (k - 1)) div k"
proof (cases "n - i < k")
  case True
  with assms have z: "n - (i + k) = 0" and "k \<le> n - i + (k - 1)" and "n - i + (k - 1) < 2 * k"
    by simp_all
  then have "(n - i + (k - 1)) div k = 1"
    by (simp add: Euclidean_Rings.div_nat_eqI)
  with z assms show ?thesis by simp
next
  case False
  with assms have "n - i + (k - 1) = (n - (i + k) + (k - 1)) + k" by simp
  with assms show ?thesis by (metis div_add_self2 Suc_eq_plus1 less_numeral_extra(3))
qed

lemma screensFrom_length:
  "length (screensFrom i lines) = (length lines - i + 4) div 5"
proof (induction i lines rule: screensFrom.induct)
  case (1 i lines)
  show ?case
  proof (cases "i < length lines")
    case True
    then have "length (screensFrom i lines) = Suc ((length lines - (i + 5) + 4) div 5)"
      using "1.IH" by (subst screensFrom.simps) simp
    also have "\<dots> = (length lines - i + 4) div 5"
      using True ceil_div_step [of 5 i "length lines"] by simp
    finally show ?thesis .
  next
    case False
    then show ?thesis by (subst screensFrom.simps) simp
  qed
qed

lemma screensFrom_concat:
  "concat (screensFrom i lines) = drop i lines"
proof (induction i lines rule: screensFrom.induct)
  case (1 i lines)
  show ?case
  proof (cases "i < length lines")
    case True
    have "take 5 (drop i lines) @ drop (i + 5) lines = drop i lines"
      by (metis add.commute append_take_drop_id drop_drop)
    with True "1.IH" show ?thesis
      by (subst screensFrom.simps) (simp add: jsSlice_def)
  next
    case False
    then show ?thesis by (subst screensFrom.simps) simp
  qed
qed

lemma screensFrom_group:
  "g \<in> set (screensFrom i lines) \<Longrightarrow> length g \<le> 5 \<and> g \<noteq> []"
proof (induction i lines rule: screensFrom.induct)
  case (1 i lines)
  show ?case
  proof (cases "i < length lines")
    case True
    with "1.prems" have "g = jsSlice i (i + 5) lines \<or> g \<in> set (screensFrom (i + 5) lines)"
      by (subst (asm) screensFrom.simps) simp
    then show ?thesis
    proof
      assume "g = jsSlice i (i + 5) lines"
      with True show ?thesis by (simp add: jsSlice_def)
    next
      assume "g \<in> set (screensFrom (i + 5) lines)"
      with True "1.IH" show ?thesis by simp
    qed
  next
    case False
    with "1.prems" show ?thesis by (subst (asm) screensFrom.simps) simp
  qed
qed

subsection \<open>Line wrapping\<close>

lemma fitsWidth_iff: "fitsWidth t \<longleftrightarrow> length t \<le> 38"
  by (auto simp: fitsWidth_def)

lemma splitOn_nonempty: "splitOn sep xs \<noteq> []"
  by (induction xs) (auto split: list.splits)

lemma splitOn_no_sep: "w \<in> set (splitOn sep xs) \<Longrightarrow> sep \<notin> set w"
proof (induction xs arbitrary: w)
  case Nil
  then show ?case by simp
next
  case (Cons c cs)
  obtain v vs where ws: "splitOn sep cs = v # vs"
    using splitOn_nonempty [of sep cs] by (cases "splitOn sep cs") auto
  show ?case
  proof (cases "c = sep")
    case True
    with Cons show ?thesis by auto
  next
    case False
    with Cons.prems ws have "w = c # v \<or> w \<in> set vs" by simp
    with False ws Cons.IH [of v] Cons.IH [of w] show ?thesis by auto
  qed
qed

lemma lineStep_inv:
  assumes "list_all (lineOk ws) lines" and "lineOk ws cur"
    and "word \<in> set ws" and "SPACE \<notin> set word"
    and "lineStep (lines, cur) word = (lines', cur')"
  shows "list_all (lineOk ws) lines' \<and> lineOk ws cur'"
  using assms
  by (auto simp: lineStep_def Let_def lineOk_def split: if_splits)

lemma foldl_lineStep_inv:
  assumes "set words \<subseteq> set ws" and "\<forall>w \<in> set ws. SPACE \<notin> set w"
    and "list_all (lineOk ws) lines" and "lineOk ws cur"
    and "foldl lineStep (lines, cur) words = (lines', cur')"
  shows "list_all (lineOk ws) lines' \<and> lineOk ws cur'"
  using assms
proof (induction words arbitrary: lines cur)
  case Nil
  then show ?case by simp
next
  case (Cons word words)
  obtain l1 c1 where st: "lineStep (lines, cur) word = (l1, c1)"
    by (cases "lineStep (lines, cur) word") auto
  from Cons.prems have "word \<in> set ws" and "SPACE \<notin> set word" by auto
  with Cons.prems st have "list_all (lineOk ws) l1 \<and> lineOk ws c1"
    using lineStep_inv by blast
  with Cons.prems st show ?case
    using Cons.IH [of l1 c1] by simp
qed

lemma splitTextIntoLines_lineOk:
  "list_all (lineOk (splitOn SPACE text)) (splitTextIntoLines text)"
proof -
  obtain lines cur where f: "foldl lineStep ([], []) (splitOn SPACE text) = (lines, cur)"
    by (cases "foldl lineStep ([], []) (splitOn SPACE text)") auto
  have "lineOk (splitOn SPACE text) []"
    by (simp add: lineOk_def fitsWidth_def)
  with f have "list_all (lineOk (splitOn SPACE text)) lines \<and> lineOk (splitOn SPACE text) cur"
    using foldl_lineStep_inv [of "splitOn SPACE text" "splitOn SPACE text" "[]" "[]" lines cur]
      splitOn_no_sep [of _ SPACE "text"]
    by auto
  with f show ?thesis by (simp add: splitTextIntoLines_def)
qed

text \<open>
  C7. For every text (non-empty or not), every line returned by
  \<open>splitTextIntoLines\<close> either has a character count not exceeding
  \<open>488 / (21 * 0.6)\<close>, that is \<open>length * 12.6 \<le> 488\<close>, that is at most 38
  characters, or is a single word of the text, without any space in it, that alone
  exceeds that bound.
\<close>

theorem splitTextIntoLines_bound:
  "\<forall>l \<in> set (splitTextIntoLines text).
     (length l * 126 \<le> 4880 \<and> length l \<le> 38)
     \<or> (l \<in> set (splitOn SPACE text) \<and> SPACE \<notin> set l \<and> 4880 < length l * 126)"
  using splitTextIntoLines_lineOk [of "text"]
  by (auto simp: list_all_iff lineOk_def fitsWidth_def)


theorem splitTextIntoLines_bound_witness:
  "splitTextIntoLines wrapDemo = [[0x61, 0x62], longWord, [0x63, 0x64]]
   \<and> longWord \<in> set (splitTextIntoLines wrapDemo)
   \<and> longWord \<in> set (splitOn SPACE wrapDemo)
   \<and> SPACE \<notin> set longWord
   \<and> 4880 < length longWord * 126
   \<and> [0x61, 0x62] \<in> set (splitTextIntoLines wrapDemo)
   \<and> length [0x61, 0x62 :: 16 word] \<le> 38"
  using splitTextIntoLines_bound [of wrapDemo]
  by (simp add: wrapDemo_def longWord_def splitTextIntoLines_def lineStep_def fitsWidth_def
      SPACE_def)

text \<open>
  C8. For every list of lines, \<open>splitIntoScreens\<close> yields exactly
  \<open>ceil (length lines / 5)\<close> groups (written \<open>(length lines + 4) div 5\<close>), every group
  has at most 5 lines, and concatenating the groups in order gives back the
  original list.
\<close>

theorem splitIntoScreens_groups:
  "length (splitIntoScreens lines) = (length lines + 4) div 5
   \<and> (\<forall>g \<in> set (splitIntoScreens lines). length g \<le> 5)
   \<and> concat (splitIntoScreens lines) = lines"
  using screensFrom_length [of 0 lines] screensFrom_concat [of 0 lines]
    screensFrom_group [of _ 0 lines]
  by (auto simp: splitIntoScreens_def)

theorem splitIntoScreens_groups_witness:
  "splitIntoScreens [1, 2, 3, 4, 5, 6, 7 :: nat] = [[1, 2, 3, 4, 5], [6, 7]]
   \<and> length (splitIntoScreens [1, 2, 3, 4, 5, 6, 7 :: nat]) = (7 + 4) div 5
   \<and> list_all (\<lambda>g. length g \<le> 5) (splitIntoScreens [1, 2, 3, 4, 5, 6, 7 :: nat])
   \<and> concat (splitIntoScreens [1, 2, 3, 4, 5, 6, 7 :: nat]) = [1, 2, 3, 4, 5, 6, 7]"
  using splitIntoScreens_groups [of "[1, 2, 3, 4, 5, 6, 7 :: nat]"]
  by (simp add: splitIntoScreens_def screensFrom.simps jsSlice_def)

section \<open>Properties of the image packets\<close>

lemma G2_packetsFrom_length:
  "length (G2_packetsFrom i d) = (length d - i + 191) div 192"
proof (induction i d rule: G2_packetsFrom.induct)
  case (1 i d)
  show ?case
  proof (cases "i < length d")
    case True
    then have "length (G2_packetsFrom i d) = Suc ((length d - (i + 192) + 191) div 192)"
      using "1.IH" by (subst G2_packetsFrom.simps) simp
    also have "\<dots> = (length d - i + 191) div 192"
      using True ceil_div_step [of 192 i "length d"] by simp
    finally show ?thesis .
  next
    case False
    then show ?thesis by (subst G2_packetsFrom.simps) simp
  qed
qed

lemma G2_packetsFrom_nth:
  "k < length (G2_packetsFrom (192 * j) d) \<Longrightarrow>
   G2_packetsFrom (192 * j) d ! k =
     (if j + k = 0 then [SEND_BITMAP, 0, 0x00, 0x1C, 0x00, 0x00] else [SEND_BITMAP, of_nat (j + k)])
     @ jsSlice (192 * (j + k)) (192 * (j + k) + 192) d"
proof (induction k arbitrary: j)
  case 0
  then have lt: "192 * j < length d"
    by (subst (asm) G2_packetsFrom.simps) (simp split: if_splits)
  then show ?case
    by (subst G2_packetsFrom.simps) simp
next
  case (Suc k)
  then have lt: "192 * j < length d"
    by (subst (asm) G2_packetsFrom.simps) (simp split: if_splits)
  have step: "192 * j + 192 = 192 * Suc j" by simp
  from Suc.prems lt have "k < length (G2_packetsFrom (192 * Suc j) d)"
    by (subst (asm) G2_packetsFrom.simps) (simp add: step)
  then have "G2_packetsFrom (192 * Suc j) d ! k =
     (if Suc j + k = 0 then [SEND_BITMAP, 0, 0x00, 0x1C, 0x00, 0x00]
      else [SEND_BITMAP, of_nat (Suc j + k)])
     @ jsSlice (192 * (Suc j + k)) (192 * (Suc j + k) + 192) d"
    by (rule Suc.IH)
  with lt show ?case
    by (subst G2_packetsFrom.simps) (simp add: step)
qed

lemma P2_packetsFrom_length:
  "length (P2_packetsFrom i d) = (length d - i + 192) div 193"
proof (induction i d rule: P2_packetsFrom.induct)
  case (1 i d)
  show ?case
  proof (cases "i < length d")
    case True
    then have "length (P2_packetsFrom i d) = Suc ((length d - (i + 193) + 192) div 193)"
      using "1.IH" by (subst P2_packetsFrom.simps) simp
    also have "\<dots> = (length d - i + 192) div 193"
      using True ceil_div_step [of 193 i "length d"] by simp
    finally show ?thesis .
  next
    case False
    then show ?thesis by (subst P2_packetsFrom.simps) simp
  qed
qed

lemma P2_packetsFrom_nth:
  "k < length (P2_packetsFrom (193 * j) d) \<Longrightarrow>
   P2_packetsFrom (193 * j) d ! k =
     (if j + k = 0 then [SEND_BITMAP, 0, 0x00, 0x1C, 0x00, 0x00] else [SEND_BITMAP, of_nat (j + k)])
     @ jsSlice (193 * (j + k)) (193 * (j + k) + 193) d"
proof (induction k arbitrary: j)
  case 0
  then have lt: "193 * j < length d"
    by (subst (asm) P2_packetsFrom.simps) (simp split: if_splits)
  then show ?case
    by (subst P2_packetsFrom.simps) simp
next
  case (Suc k)
  then have lt: "193 * j < length d"
    by (subst (asm) P2_packetsFrom.simps) (simp split: if_splits)
  have step: "193 * j + 193 = 193 * Suc j" by simp
  from Suc.prems lt have "k < length (P2_packetsFrom (193 * Suc j) d)"
    by (subst (asm) P2_packetsFrom.simps) (simp add: step)
  then have "P2_packetsFrom (193 * Suc j) d ! k =
     (if Suc j + k = 0 then [SEND_BITMAP, 0, 0x00, 0x1C, 0x00, 0x00]
      else [SEND_BITMAP, of_nat (Suc j + k)])
     @ jsSlice (193 * (Suc j + k)) (193 * (Suc j + k) + 193) d"
    by (rule Suc.IH)
  with lt show ?case
    by (subst P2_packetsFrom.simps) (simp add: step)
qed

lemma length_jsSlice: "length (jsSlice b e xs) = min (e - b) (length xs - b)"
  by (simp add: jsSlice_def)

text \<open>
  C3, as amended. \<open>createBMPPackets\<close> of \<^verbatim>\<open>glasses2.ts\<close> makes
  \<open>ceil (length / 192)\<close> packets, packet \<open>k\<close> being the header followed by the bytes
  \<open>192 * k\<close> to \<open>192 * k + 192\<close> of the image (so at most 192 payload bytes), where the
  header of packet 0 is the opcode, the index 0 and the storage address
  \<open>0x00 0x1C 0x00 0x00\<close> and the header of another packet is the opcode and the index
  modulo 256; \<open>createBMPPackets\<close> of \<^verbatim>\<open>part_002\<close> does the same in chunks of 193
  bytes. In both, packet 0 is 4 bytes longer than every other packet made from a
  full-size chunk.
\<close>

theorem createBMPPackets_chunks:
  "length (G2_createBMPPackets d) = (length d + 191) div 192
   \<and> (\<forall>k < length (G2_createBMPPackets d).
        G2_createBMPPackets d ! k =
          (if k = 0 then [0x15, 0, 0x00, 0x1C, 0x00, 0x00] else [0x15, of_nat k])
          @ jsSlice (192 * k) (192 * k + 192) d
        \<and> length (jsSlice (192 * k) (192 * k + 192) d) \<le> 192
        \<and> (0 < k \<and> 192 * k + 192 \<le> length d \<longrightarrow>
             length (G2_createBMPPackets d ! 0) = length (G2_createBMPPackets d ! k) + 4))
   \<and> length (P2_createBMPPackets d) = (length d + 192) div 193
   \<and> (\<forall>k < length (P2_createBMPPackets d).
        P2_createBMPPackets d ! k =
          (if k = 0 then [0x15, 0, 0x00, 0x1C, 0x00, 0x00] else [0x15, of_nat k])
          @ jsSlice (193 * k) (193 * k + 193) d
        \<and> length (jsSlice (193 * k) (193 * k + 193) d) \<le> 193
        \<and> (0 < k \<and> 193 * k + 193 \<le> length d \<longrightarrow>
             length (P2_createBMPPackets d ! 0) = length (P2_createBMPPackets d ! k) + 4))"
proof -
  have g_len: "length (G2_createBMPPackets d) = (length d + 191) div 192"
    using G2_packetsFrom_length [of 0 d] by (simp add: G2_createBMPPackets_def)
  have p_len: "length (P2_createBMPPackets d) = (length d + 192) div 193"
    using P2_packetsFrom_length [of 0 d] by (simp add: P2_createBMPPackets_def)
  have g_nth: "G2_createBMPPackets d ! k =
          (if k = 0 then [0x15, 0, 0x00, 0x1C, 0x00, 0x00] else [0x15, of_nat k])
          @ jsSlice (192 * k) (192 * k + 192) d"
    if "k < length (G2_createBMPPackets d)" for k
    using that G2_packetsFrom_nth [of k 0 d]
    by (simp add: G2_createBMPPackets_def SEND_BITMAP_def)
  have p_nth: "P2_createBMPPackets d ! k =
          (if k = 0 then [0x15, 0, 0x00, 0x1C, 0x00, 0x00] else [0x15, of_nat k])
          @ jsSlice (193 * k) (193 * k + 193) d"
    if "k < length (P2_createBMPPackets d)" for k
    using that P2_packetsFrom_nth [of k 0 d]
    by (simp add: P2_createBMPPackets_def SEND_BITMAP_def)
  have g_four: "length (G2_createBMPPackets d ! 0) = length (G2_createBMPPackets d ! k) + 4"
    if "k < length (G2_createBMPPackets d)" and "0 < k" and "192 * k + 192 \<le> length d" for k
  proof -
    from that have "0 < length (G2_createBMPPackets d)" by (cases "G2_createBMPPackets d") auto
    with that show ?thesis
      using g_nth [of 0] g_nth [of k] by (simp add: length_jsSlice min_def)
  qed
  have p_four: "length (P2_createBMPPackets d ! 0) = length (P2_createBMPPackets d ! k) + 4"
    if "k < length (P2_createBMPPackets d)" and "0 < k" and "193 * k + 193 \<le> length d" for k
  proof -
    from that have "0 < length (P2_createBMPPackets d)" by (cases "P2_createBMPPackets d") auto
    with that show ?thesis
      using p_nth [of 0] p_nth [of k] by (simp add: length_jsSlice min_def)
  qed
  show ?thesis
    using g_len p_len g_nth p_nth g_four p_four by (simp add: length_jsSlice min_def)
qed


theorem createBMPPackets_192_counterexample:
  "length image193 = 193
   \<and> length (P2_createBMPPackets image193) = 1
   \<and> (length image193 + 191) div 192 = 2
   \<and> P2_createBMPPackets image193 ! 0 = [0x15, 0, 0x00, 0x1C, 0x00, 0x00] @ replicate 193 0"
  by (simp add: image193_def P2_createBMPPackets_def P2_packetsFrom.simps jsSlice_def
      SEND_BITMAP_def)

theorem createBMPPackets_chunks_witness:
  "length (G2_createBMPPackets image400) = 3
   \<and> G2_createBMPPackets image400 ! 1 = [0x15, 1] @ replicate 192 7
   \<and> length (G2_createBMPPackets image400 ! 0) = length (G2_createBMPPackets image400 ! 1) + 4
   \<and> length (P2_createBMPPackets image400) = 3
   \<and> P2_createBMPPackets image400 ! 1 = [0x15, 1] @ replicate 193 7
   \<and> length (P2_createBMPPackets image400 ! 0) = length (P2_createBMPPackets image400 ! 1) + 4"
proof -
  note t = createBMPPackets_chunks [of image400]
  have g: "length (G2_createBMPPackets image400) = 3"
    and p: "length (P2_createBMPPackets image400) = 3"
    using t by (simp_all add: image400_def)
  from g have g1: "1 < length (G2_createBMPPackets image400)" by simp
  from p have p1: "1 < length (P2_createBMPPackets image400)" by simp
  note tg = t [THEN conjunct2, THEN conjunct1, rule_format, OF g1]
  note tp = t [THEN conjunct2, THEN conjunct2, THEN conjunct2, rule_format, OF p1]
  show ?thesis
    using g p tg tp by (simp add: image400_def jsSlice_def)
qed

section \<open>Properties of the checksum\<close>

lemma msb_test: "(c AND 0x80000000 \<noteq> 0) = bit c 31" for c :: "32 word"
proof -
  have "(0x80000000 :: 32 word) = 2 ^ 31" by simp
  then show ?thesis by (simp only: and_exp_eq_0_iff_not_bit) simp
qed

lemma uint_crcShift: "uint (crcShift c) = refStep (uint c)"
proof -
  have p: "uint polynomial = 0x04C11DB7" by (simp add: polynomial_def)
  have sh: "uint (push_bit 1 c) = take_bit 32 (push_bit 1 (uint c))"
    by (simp only: unsigned_push_bit_eq) simp
  have b: "bit (uint c) 31 = bit c 31" by (simp add: bit_uint_iff)
  show ?thesis
  proof (cases "bit c 31")
    case True
    then have "uint (crcShift c) = uint (push_bit 1 c) XOR uint polynomial"
      by (simp only: crcShift_def msb_test if_True unsigned_xor_eq)
    with True b show ?thesis by (simp only: refStep_def sh p if_True)
  next
    case False
    then have "uint (crcShift c) = uint (push_bit 1 c)"
      by (simp only: crcShift_def msb_test if_False)
    with False b show ?thesis by (simp only: refStep_def sh if_False)
  qed
qed

lemma uint_crcBits: "uint (crcBits n c) = (refStep ^^ n) (uint c)"
  by (induction n arbitrary: c) (simp_all add: uint_crcShift funpow_swap1)

lemma uint_byte_shift: "uint (push_bit 24 (ucast b :: 32 word)) = push_bit 24 (uint b)"
  for b :: byte
proof -
  have "uint b < 2 ^ 8" using uint_bounded [of b] by simp
  then have "push_bit 24 (uint b) < 2 ^ 32" by (simp add: push_bit_eq_mult)
  moreover have "0 \<le> push_bit 24 (uint b)" by (simp add: push_bit_eq_mult)
  ultimately have "take_bit 32 (push_bit 24 (uint b)) = push_bit 24 (uint b)"
    by (simp add: take_bit_int_eq_self)
  moreover have "uint (ucast b :: 32 word) = uint b"
    using \<open>uint b < 2 ^ 8\<close> by (simp add: unsigned_ucast_eq take_bit_int_eq_self)
  ultimately show ?thesis by (simp only: unsigned_push_bit_eq) simp
qed

lemma uint_crcByte: "uint (crcByte c b) = refByte (uint c) (uint b)"
  by (simp add: crcByte_def refByte_def uint_crcBits unsigned_xor_eq uint_byte_shift)

lemma uint_foldl_crcByte:
  "uint (foldl crcByte c bs) = foldl refByte (uint c) (map uint bs)"
  by (induction bs arbitrary: c) (simp_all add: uint_crcByte)

lemma P2_refines: "P2_calculateCRC32 bytes = refCRC32 (map uint bytes)"
  by (simp add: P2_calculateCRC32_def refCRC32_def unsigned_not_eq uint_foldl_crcByte)


lemma mask_byte1: "(0xFF00 :: 32 word) = push_bit 8 (mask 8)" by (simp add: mask_eq_exp_minus_1)
lemma mask_byte2: "(0xFF0000 :: 32 word) = push_bit 16 (mask 8)" by (simp add: mask_eq_exp_minus_1)

lemma swapBytes_byte0: "(ucast (swapBytes w) :: byte) = ucast (drop_bit 24 w)"
  unfolding swapBytes_def mask_byte1 mask_byte2
  by (rule bit_word_eqI) (auto simp: bit_simps)
lemma swapBytes_byte1: "(ucast (drop_bit 8 (swapBytes w)) :: byte) = ucast (drop_bit 16 w)"
  unfolding swapBytes_def mask_byte1 mask_byte2
  by (rule bit_word_eqI) (auto simp: bit_simps)
lemma swapBytes_byte2: "(ucast (drop_bit 16 (swapBytes w)) :: byte) = ucast (drop_bit 8 w)"
  unfolding swapBytes_def mask_byte1 mask_byte2
  by (rule bit_word_eqI) (auto simp: bit_simps)
lemma swapBytes_byte3: "(ucast (drop_bit 24 (swapBytes w)) :: byte) = ucast w"
  unfolding swapBytes_def mask_byte1 mask_byte2
  by (rule bit_word_eqI) (auto simp: bit_simps)

lemma G2_bytes:
  "uint32ToBytes (G2_calculateCRC32 bytes)
     = rev (uint32ToBytes (P2_calculateCRC32 (storageAddress @ bytes)))"
proof -
  define w where "w = NOT (foldl crcByte 0xFFFFFFFF (storageAddress @ bytes))"
  have g: "G2_calculateCRC32 bytes = sint (swapBytes w)"
    by (simp add: G2_calculateCRC32_def Let_def swapBytes_def w_def)
  have p: "P2_calculateCRC32 (storageAddress @ bytes) = uint w"
    by (simp add: P2_calculateCRC32_def w_def)
  show ?thesis
    unfolding g p by (simp add: uint32ToBytes_def swapBytes_byte0 swapBytes_byte1 swapBytes_byte2 swapBytes_byte3)
qed

lemma G2_range: "- (2 ^ 31) \<le> G2_calculateCRC32 bytes \<and> G2_calculateCRC32 bytes < 2 ^ 31"
proof -
  obtain v :: "32 word" where "G2_calculateCRC32 bytes = sint v"
    by (simp add: G2_calculateCRC32_def Let_def)
  then show ?thesis
    using sint_ge [of v] sint_lt [of v] by simp
qed

lemma crcBits_8:
  "crcBits 8 c = crcShift (crcShift (crcShift (crcShift (crcShift (crcShift (crcShift (crcShift c)))))))"
  by (simp add: eval_nat_numeral)


text \<open>The check value of CRC-32/BZIP2 on the ASCII digits 1 to 9.\<close>

lemma P2_calculateCRC32_check: "P2_calculateCRC32 [0x31,0x32,0x33,0x34,0x35,0x36,0x37,0x38,0x39] = 0xFC891918"
  by (simp add: P2_calculateCRC32_def crcByte_def crcBits_8 crcShift_def polynomial_def)


text \<open>
  C4, as amended. \<open>calculateCRC32\<close> of \<^verbatim>\<open>part_002\<close> computes, for every input byte
  sequence, the reference CRC-32 variant: register initialised to \<open>0xFFFFFFFF\<close>, each
  byte XORed into bits 31..24 and followed by 8 MSB-first steps that shift left and
  XOR the polynomial \<open>0x04C11DB7\<close> when bit 31 was set, result the one's complement of
  the register masked to 32 bits. \<open>calculateCRC32\<close> of \<^verbatim>\<open>glasses2.ts\<close> runs that
  computation over the storage address \<open>0x00 0x1C 0x00 0x00\<close> followed by the input
  and returns the value with its four bytes in reverse order, as a signed 32-bit
  number.
\<close>

theorem calculateCRC32_reference:
  "P2_calculateCRC32 bytes = refCRC32 (map uint bytes)
   \<and> uint32ToBytes (G2_calculateCRC32 bytes)
       = rev (uint32ToBytes (refCRC32 (map uint (storageAddress @ bytes))))
   \<and> - (2 ^ 31) \<le> G2_calculateCRC32 bytes \<and> G2_calculateCRC32 bytes < 2 ^ 31"
  using P2_refines [of bytes] P2_refines [of "storageAddress @ bytes"]
    G2_bytes [of bytes] G2_range [of bytes]
  by simp

theorem calculateCRC32_glasses2_counterexample:
  "G2_calculateCRC32 [] = - 801319380 \<and> refCRC32 (map uint ([] :: byte list)) = 0"
  by (simp add: G2_calculateCRC32_def storageAddress_def crcByte_def crcBits_8 crcShift_def
      polynomial_def refCRC32_def)

section \<open>Properties of the text frames\<close>

lemma createTextPacket_sequence:
  "createTextPacket bytes cp tp page maxp s = (packet, s1) \<Longrightarrow>
   packet ! 1 = of_nat (sequenceNumber s) \<and> sequenceNumber s1 = jsIncrement (sequenceNumber s)"
  by (auto simp: createTextPacket_def Let_def)

lemma framesBackToBack_length: "length (framesBackToBack calls s) = length calls"
  by (induction calls s rule: framesBackToBack.induct) (auto split: prod.splits)

lemma framesBackToBack_nth:
  "sequenceNumber s + length calls \<le> 2 ^ 53 \<Longrightarrow> i < length calls \<Longrightarrow>
   framesBackToBack calls s ! i ! 1 = of_nat (sequenceNumber s + i)"
proof (induction calls s arbitrary: i rule: framesBackToBack.induct)
  case (1 s)
  then show ?case by simp
next
  case (2 bytes cp tp page maxp rest s)
  obtain packet s1 where c: "createTextPacket bytes cp tp page maxp s = (packet, s1)"
    by (cases "createTextPacket bytes cp tp page maxp s") auto
  then have p: "packet ! 1 = of_nat (sequenceNumber s)"
    and n: "sequenceNumber s1 = jsIncrement (sequenceNumber s)"
    using createTextPacket_sequence by blast+
  from "2.prems" have "sequenceNumber s < 2 ^ 53" by simp
  with n have n1: "sequenceNumber s1 = sequenceNumber s + 1" by (simp add: jsIncrement_def)
  show ?case
  proof (cases i)
    case 0
    with c p show ?thesis by simp
  next
    case (Suc k)
    with "2.prems" n1 have "sequenceNumber s1 + length rest \<le> 2 ^ 53" and "k < length rest"
      by simp_all
    then have "framesBackToBack rest s1 ! k ! 1 = of_nat (sequenceNumber s1 + k)"
      using "2.IH" [OF c [symmetric]] by blast
    with c n1 Suc show ?thesis by simp
  qed
qed

lemma mod_256_distinct:
  fixes a i j :: nat
  assumes "i < j" and "j - i < 256"
  shows "(a + i) mod 256 \<noteq> (a + j) mod 256"
proof
  assume "(a + i) mod 256 = (a + j) mod 256"
  then have "(a + j) mod 256 = (a + i) mod 256" by simp
  with assms have "256 dvd (a + j) - (a + i)"
    by (simp add: mod_eq_dvd_iff_nat)
  with assms have "256 dvd j - i" by simp
  with assms show False by (auto dest: dvd_imp_le)
qed

lemma byte_of_nat_eq_iff: "(of_nat m :: byte) = of_nat n \<longleftrightarrow> m mod 256 = n mod 256"
  by (simp add: word_of_nat_eq_iff take_bit_eq_mod)

text \<open>
  C6. The sequence byte of a text-frame header is the session's counter modulo 256:
  from a counter \<open>n\<close> the frames built back to back carry \<open>n mod 256\<close>,
  \<open>(n + 1) mod 256\<close>, ..., so the byte runs through 0..255 and the frame after one
  that carries 255 carries 0; two of these frames carry the same byte only if they
  are 256 or more frames apart, and frames exactly 256 apart do carry the same byte.
  The counter is a JavaScript number, exact up to \<open>2^53\<close>, and the statement is for
  the frames built before it gets there.
\<close>

theorem sequence_byte_cycles:
  assumes "sequenceNumber s + length calls \<le> 2 ^ 53"
  shows "(\<forall>i < length calls.
            unat (framesBackToBack calls s ! i ! 1) = (sequenceNumber s + i) mod 256)
         \<and> (\<forall>i. Suc i < length calls \<and> framesBackToBack calls s ! i ! 1 = 255 \<longrightarrow>
                framesBackToBack calls s ! Suc i ! 1 = 0)
         \<and> (\<forall>i j. i < j \<and> j < length calls \<and> j - i < 256 \<longrightarrow>
                framesBackToBack calls s ! i ! 1 \<noteq> framesBackToBack calls s ! j ! 1)
         \<and> (\<forall>i. i + 256 < length calls \<longrightarrow>
                framesBackToBack calls s ! (i + 256) ! 1 = framesBackToBack calls s ! i ! 1)"
proof (intro conjI allI impI)
  fix i assume "i < length calls"
  then have e: "framesBackToBack calls s ! i ! 1 = of_nat (sequenceNumber s + i)"
    by (rule framesBackToBack_nth [OF assms])
  show "unat (framesBackToBack calls s ! i ! 1) = (sequenceNumber s + i) mod 256"
    unfolding e unat_of_nat by simp
next
  fix i assume a: "Suc i < length calls \<and> framesBackToBack calls s ! i ! 1 = 255"
  then have "(of_nat (sequenceNumber s + i) :: byte) = of_nat 255"
    using framesBackToBack_nth [OF assms, of i] by simp
  then have "(sequenceNumber s + i) mod 256 = 255"
    by (simp only: byte_of_nat_eq_iff) simp
  moreover have "(sequenceNumber s + Suc i) mod 256 = Suc ((sequenceNumber s + i) mod 256) mod 256"
    by (simp add: mod_Suc_eq)
  ultimately have "(sequenceNumber s + Suc i) mod 256 = 0"
    by simp
  then have "(of_nat (sequenceNumber s + Suc i) :: byte) = of_nat 0"
    by (simp only: byte_of_nat_eq_iff)
  with a show "framesBackToBack calls s ! Suc i ! 1 = 0"
    using framesBackToBack_nth [OF assms, of "Suc i"] by simp
next
  fix i j assume a: "i < j \<and> j < length calls \<and> j - i < 256"
  then have "(sequenceNumber s + i) mod 256 \<noteq> (sequenceNumber s + j) mod 256"
    using mod_256_distinct by blast
  then have "(of_nat (sequenceNumber s + i) :: byte) \<noteq> of_nat (sequenceNumber s + j)"
    by (simp only: byte_of_nat_eq_iff) simp
  with a show "framesBackToBack calls s ! i ! 1 \<noteq> framesBackToBack calls s ! j ! 1"
    using framesBackToBack_nth [OF assms, of i] framesBackToBack_nth [OF assms, of j] by simp
next
  fix i assume a: "i + 256 < length calls"
  have "(sequenceNumber s + (i + 256)) mod 256 = (sequenceNumber s + i) mod 256"
    by (simp add: add.assoc [symmetric])
  then have "(of_nat (sequenceNumber s + (i + 256)) :: byte) = of_nat (sequenceNumber s + i)"
    by (simp only: byte_of_nat_eq_iff)
  with a show "framesBackToBack calls s ! (i + 256) ! 1 = framesBackToBack calls s ! i ! 1"
    using framesBackToBack_nth [OF assms, of i] framesBackToBack_nth [OF assms, of "i + 256"]
    by simp
qed

theorem sequence_byte_cycles_witness:
  "sequenceNumber manager254 + length threeCalls \<le> 2 ^ 53
   \<and> framesBackToBack threeCalls manager254 ! 0 ! 1 = 254
   \<and> framesBackToBack threeCalls manager254 ! 1 ! 1 = 255
   \<and> framesBackToBack threeCalls manager254 ! 2 ! 1 = 0
   \<and> unat (framesBackToBack threeCalls manager254 ! 2 ! 1) = (254 + 2) mod 256
   \<and> framesBackToBack threeCalls manager254 ! 0 ! 1 \<noteq> framesBackToBack threeCalls manager254 ! 2 ! 1"
proof -
  have h: "sequenceNumber manager254 + length threeCalls \<le> 2 ^ 53"
    by (simp add: manager254_def threeCalls_def)
  note t = sequence_byte_cycles [OF h]
  have "unat (framesBackToBack threeCalls manager254 ! 2 ! 1) = (254 + 2) mod 256"
    using t [THEN conjunct1, rule_format, of 2] by (simp add: manager254_def threeCalls_def)
  moreover have "framesBackToBack threeCalls manager254 ! 0 ! 1
      \<noteq> framesBackToBack threeCalls manager254 ! 2 ! 1"
    using t [THEN conjunct2, THEN conjunct2, THEN conjunct1, rule_format, of 0 2] by (simp add: threeCalls_def)
  ultimately show ?thesis
    using h
    by (simp add: manager254_def threeCalls_def connectedManager_def newManager_def
        createTextPacket_def jsIncrement_def Let_def)
qed

section \<open>Properties of the inbound notifications\<close>

lemma handleBatteryUpdate_decodes:
  assumes "4 \<le> length bytes"
  shows "\<exists>v. handleBatteryUpdate bytes isLeft =
           Some (BatteryUpdate \<lparr>percentage = unat (bytes ! 3),
                                isCharging = (bytes ! 2 AND 0x01 \<noteq> 0),
                                voltage = v\<rparr> isLeft)
             \<and> (v \<noteq> None \<longleftrightarrow> 4 < length bytes)"
  using assms by (simp add: handleBatteryUpdate_def)

lemma handleBatteryUpdate_scenario:
  "handleBatteryUpdate [0x2C, 0x00, 0x01, 85] True =
     Some (BatteryUpdate \<lparr>percentage = 85, isCharging = True, voltage = None\<rparr> True)"
  by (simp add: handleBatteryUpdate_def)

lemma handleNotification_battery:
  "handleNotification acks [0x2C, 0x00, 0x01, 85] False s =
     (Some (BatteryUpdate \<lparr>percentage = 85, isCharging = True, voltage = None\<rparr> False), s)"
  by (simp add: handleNotification_def handleBatteryUpdate_def DEVICE_EVENTS_def GET_BATTERY_def)

text \<open>
  C9. The payload \<open>[0x2C, 0x00, 0x01, 85, 0x0F]\<close> has five bytes: byte 4 is there and
  byte 5 is not. The decoded reading has a voltage all the same, \<open>0x0F00\<close>, made of
  byte 4 and a missing low byte read as 0.
\<close>

theorem handleBatteryUpdate_five_bytes:
  "handleBatteryUpdate [0x2C, 0x00, 0x01, 85, 0x0F] True =
     Some (BatteryUpdate \<lparr>percentage = 85, isCharging = True, voltage = Some 3840\<rparr> True)"
  by (simp add: handleBatteryUpdate_def)

lemma mapTypeToCommand_17:
  "snd (mapTypeToCommand acks 0x17 s) = snd (clearScreen acks (s\<lparr>isGlassesWorn := True\<rparr>))"
  by (simp add: mapTypeToCommand_def)

lemma mapTypeToCommand_18:
  "snd (mapTypeToCommand acks 0x18 s) = snd (clearScreen acks (s\<lparr>isGlassesWorn := True\<rparr>))"
  by (simp add: mapTypeToCommand_def)

lemma sendCommand_both:
  assumes "leftTxCharacteristic s \<noteq> None" and "rightTxCharacteristic s \<noteq> None"
  shows "snd (sendCommand acks bytes True True s) =
           s\<lparr>written := written s @ [(LeftArm, bytes), (RightArm, bytes)]\<rparr>"
  using assms by (simp add: sendCommand_def writeToCharacteristic_def)

text \<open>
  C10. Handling an inbound device event with sub-code \<open>0x17\<close> or \<open>0x18\<close> sets
  \<open>isGlassesWorn\<close>, leaves the other fields as they are, starts a write of the
  one-byte command \<open>CLEAR_SCREEN\<close> (\<open>0x18\<close>) to the left and to the right
  characteristic, and passes the event to the observers.
\<close>

theorem touchpad_event_clears_screen:
  assumes "t = 0x17 \<or> t = 0x18"
    and "leftTxCharacteristic s \<noteq> None" and "rightTxCharacteristic s \<noteq> None"
  shows "handleNotification acks (0xF5 # t # rest) isLeft s =
           (Some (DeviceEvent t rest),
            s\<lparr>isGlassesWorn := True,
              written := written s @ [(LeftArm, [0x18]), (RightArm, [0x18])]\<rparr>)"
proof -
  have c: "snd (clearScreen acks (s\<lparr>isGlassesWorn := True\<rparr>)) =
          s\<lparr>isGlassesWorn := True,
            written := written s @ [(LeftArm, [0x18]), (RightArm, [0x18])]\<rparr>"
    using assms(2,3) sendCommand_both [of "s\<lparr>isGlassesWorn := True\<rparr>" acks "[0x18]"]
    by (simp add: clearScreen_def CLEAR_SCREEN_def)
  have n: "handleNotification acks (0xF5 # t # rest) isLeft s =
             (Some (DeviceEvent t rest), snd (mapTypeToCommand acks t s))"
    by (simp add: handleNotification_def handleDeviceEvent_def DEVICE_EVENTS_def split_beta)
  from assms(1) have "snd (mapTypeToCommand acks t s) = snd (clearScreen acks (s\<lparr>isGlassesWorn := True\<rparr>))"
    using mapTypeToCommand_17 [of acks s] mapTypeToCommand_18 [of acks s] by blast
  with c n show ?thesis by simp
qed

theorem touchpad_event_clears_screen_witness:
  "handleNotification allAcknowledged [0xF5, 0x17, 0x01] True connectedManager =
     (Some (DeviceEvent 0x17 [0x01]),
      connectedManager\<lparr>isGlassesWorn := True,
                       written := [(LeftArm, [0x18]), (RightArm, [0x18])]\<rparr>)
   \<and> leftTxCharacteristic connectedManager \<noteq> None
   \<and> rightTxCharacteristic connectedManager \<noteq> None"
  using touchpad_event_clears_screen [of "0x17" connectedManager allAcknowledged "[0x01]" True]
  by (simp add: connectedManager_def newManager_def)

section \<open>Properties of the send operations\<close>

lemma sendCommand_written:
  "written (snd (sendCommand acks bytes toLeft toRight s)) =
     written s
     @ (if toLeft \<and> leftTxCharacteristic s \<noteq> None then [(LeftArm, bytes)] else [])
     @ (if toRight \<and> rightTxCharacteristic s \<noteq> None then [(RightArm, bytes)] else [])"
  by (cases "leftTxCharacteristic s"; cases "rightTxCharacteristic s"; cases toLeft; cases toRight)
    (simp_all add: sendCommand_def writeToCharacteristic_def)

lemma sendCommand_absent:
  assumes "toLeft \<longrightarrow> leftTxCharacteristic s = None"
    and "toRight \<longrightarrow> rightTxCharacteristic s = None"
  shows "sendCommand acks bytes toLeft toRight s = (Inr (), s)"
  using assms
  by (cases "leftTxCharacteristic s"; cases "rightTxCharacteristic s"; cases toLeft; cases toRight)
    (simp_all add: sendCommand_def)

lemma sendCommand_acked:
  assumes "\<forall>k. acks k"
  shows "sendCommand acks bytes toLeft toRight s =
     (Inr (), s\<lparr>written := written s
        @ (if toLeft \<and> leftTxCharacteristic s \<noteq> None then [(LeftArm, bytes)] else [])
        @ (if toRight \<and> rightTxCharacteristic s \<noteq> None then [(RightArm, bytes)] else [])\<rparr>)"
  using assms
  by (cases "leftTxCharacteristic s"; cases "rightTxCharacteristic s"; cases toLeft; cases toRight)
    (simp_all add: sendCommand_def writeToCharacteristic_def)

lemma sendCommand_left_then_right:
  assumes "\<forall>k. acks k"
    and "leftTxCharacteristic s \<noteq> None" and "rightTxCharacteristic s \<noteq> None"
  shows "andThen (sendCommand acks bytes True False) (sendCommand acks bytes False True) s =
           (Inr (), s\<lparr>written := written s @ toBothArms bytes\<rparr>)"
  using assms by (simp add: andThen_def sendCommand_acked toBothArms_def)

text \<open>
  What the public send operations do when \<open>isConnected\<close> is false. \<open>sendText\<close> returns
  \<open>false\<close> and leaves the session untouched, in both files. \<open>sendNotification\<close>,
  \<open>setBrightness\<close>, \<open>setSilentMode\<close>, \<open>clearScreen\<close> and \<open>getBatteryStatus\<close> never
  read the flag: each writes its command to every endpoint it targets whose TX
  characteristic is present, and to no other.
\<close>

lemma send_operations_written:
  assumes "\<not> isConnected s"
  shows "G2_sendText acks utf8 txt x y replace s = (Inr False, s)
    \<and> P2_sendText acks utf8 txt position s = (False, s)
    \<and> written (snd (sendNotification acks jsonBytes s)) =
        written s @ (if length jsonBytes \<le> 180 \<and> leftTxCharacteristic s \<noteq> None
                     then [(LeftArm, [0x4B, 0x00, 0x01, 0x00] @ jsonBytes)] else [])
    \<and> written (snd (setBrightness acks brightness autoMode s)) =
        written s @ (if rightTxCharacteristic s \<noteq> None
                     then [(RightArm, [0x01, word_of_int (max 0 (min 42 brightness)),
                                       if autoMode then 0x01 else 0x00])] else [])
    \<and> written (snd (setSilentMode acks enabled s)) =
        written s
        @ (if leftTxCharacteristic s \<noteq> None
           then [(LeftArm, [0x03, if enabled then 0x0C else 0x0A])] else [])
        @ (if rightTxCharacteristic s \<noteq> None
           then [(RightArm, [0x03, if enabled then 0x0C else 0x0A])] else [])
    \<and> written (snd (clearScreen acks s)) =
        written s
        @ (if leftTxCharacteristic s \<noteq> None then [(LeftArm, [0x18])] else [])
        @ (if rightTxCharacteristic s \<noteq> None then [(RightArm, [0x18])] else [])
    \<and> written (snd (getBatteryStatus acks s)) =
        written s
        @ (if leftTxCharacteristic s \<noteq> None then [(LeftArm, [0x2C, 0x01])] else [])
        @ (if rightTxCharacteristic s \<noteq> None then [(RightArm, [0x2C, 0x01])] else [])
    \<and> (leftTxCharacteristic s = None \<and> rightTxCharacteristic s = None \<longrightarrow>
         sendNotification acks jsonBytes s =
           (if 180 < length jsonBytes then Inl PayloadTooLarge else Inr (), s)
         \<and> setBrightness acks brightness autoMode s = (Inr (), s)
         \<and> setSilentMode acks enabled s = (Inr (), s)
         \<and> clearScreen acks s = (Inr (), s)
         \<and> getBatteryStatus acks s = (Inr (), s))"
proof -
  have t1: "G2_sendText acks utf8 txt x y replace s = (Inr False, s)"
    using assms by (simp add: G2_sendText_def)
  have t2: "P2_sendText acks utf8 txt position s = (False, s)"
    using assms by (simp add: P2_sendText_def)
  have n: "written (snd (sendNotification acks jsonBytes s)) =
        written s @ (if length jsonBytes \<le> 180 \<and> leftTxCharacteristic s \<noteq> None
                     then [(LeftArm, [0x4B, 0x00, 0x01, 0x00] @ jsonBytes)] else [])"
    by (cases "180 < length jsonBytes")
      (simp_all add: sendNotification_def sendCommand_written SEND_NOTIFICATION_def)
  have b: "written (snd (setBrightness acks brightness autoMode s)) =
        written s @ (if rightTxCharacteristic s \<noteq> None
                     then [(RightArm, [0x01, word_of_int (max 0 (min 42 brightness)),
                                       if autoMode then 0x01 else 0x00])] else [])"
    by (simp add: setBrightness_def sendCommand_written SET_BRIGHTNESS_def)
  have m: "written (snd (setSilentMode acks enabled s)) =
        written s
        @ (if leftTxCharacteristic s \<noteq> None
           then [(LeftArm, [0x03, if enabled then 0x0C else 0x0A])] else [])
        @ (if rightTxCharacteristic s \<noteq> None
           then [(RightArm, [0x03, if enabled then 0x0C else 0x0A])] else [])"
    by (simp add: setSilentMode_def sendCommand_written SET_SILENT_MODE_def)
  have c: "written (snd (clearScreen acks s)) =
        written s
        @ (if leftTxCharacteristic s \<noteq> None then [(LeftArm, [0x18])] else [])
        @ (if rightTxCharacteristic s \<noteq> None then [(RightArm, [0x18])] else [])"
    by (simp add: clearScreen_def sendCommand_written CLEAR_SCREEN_def)
  have g: "written (snd (getBatteryStatus acks s)) =
        written s
        @ (if leftTxCharacteristic s \<noteq> None then [(LeftArm, [0x2C, 0x01])] else [])
        @ (if rightTxCharacteristic s \<noteq> None then [(RightArm, [0x2C, 0x01])] else [])"
    by (simp add: getBatteryStatus_def sendCommand_written GET_BATTERY_def)
  have r: "sendNotification acks jsonBytes s =
           (if 180 < length jsonBytes then Inl PayloadTooLarge else Inr (), s)
         \<and> setBrightness acks brightness autoMode s = (Inr (), s)
         \<and> setSilentMode acks enabled s = (Inr (), s)
         \<and> clearScreen acks s = (Inr (), s)
         \<and> getBatteryStatus acks s = (Inr (), s)"
    if "leftTxCharacteristic s = None \<and> rightTxCharacteristic s = None"
    using that
    by (simp add: sendNotification_def setBrightness_def setSilentMode_def clearScreen_def
        getBatteryStatus_def sendCommand_absent)
  from t1 t2 n b m c g r show ?thesis by blast
qed

text \<open>
  C1. The session \<open>halfDisconnected\<close> is the one that \<open>disconnect\<close> leaves when
  \<open>cancelConnection\<close> of the left device throws: \<open>isConnected\<close> is false and both TX
  characteristics are still set. Invoked there, \<open>sendText\<close> (of either file) and
  \<open>sendBMPImage\<close> (of \<^verbatim>\<open>part_002\<close>) return \<open>false\<close> and write nothing, as the claim
  says of every send operation; \<open>setBrightness\<close>, \<open>setSilentMode\<close>, \<open>clearScreen\<close> and
  \<open>getBatteryStatus\<close> complete normally and each writes its command to the endpoints
  it targets.
\<close>

theorem send_operations_write_when_not_connected:
  "\<not> isConnected halfDisconnected
   \<and> written halfDisconnected = []
   \<and> G2_sendText allAcknowledged (map ucast) wrapDemo 100 100 False halfDisconnected
       = (Inr False, halfDisconnected)
   \<and> P2_sendText allAcknowledged (map ucast) wrapDemo 0 halfDisconnected
       = (False, halfDisconnected)
   \<and> P2_sendBMPImage allAcknowledged smallImage halfDisconnected = (False, halfDisconnected)
   \<and> setBrightness allAcknowledged 10 False halfDisconnected
       = (Inr (), halfDisconnected\<lparr>written := [(RightArm, [0x01, 0x0A, 0x00])]\<rparr>)
   \<and> setSilentMode allAcknowledged True halfDisconnected
       = (Inr (), halfDisconnected\<lparr>written := [(LeftArm, [0x03, 0x0C]), (RightArm, [0x03, 0x0C])]\<rparr>)
   \<and> clearScreen allAcknowledged halfDisconnected
       = (Inr (), halfDisconnected\<lparr>written := [(LeftArm, [0x18]), (RightArm, [0x18])]\<rparr>)
   \<and> getBatteryStatus allAcknowledged halfDisconnected
       = (Inr (), halfDisconnected\<lparr>written := [(LeftArm, [0x2C, 0x01]), (RightArm, [0x2C, 0x01])]\<rparr>)"
proof -
  have h: "\<not> isConnected halfDisconnected" "written halfDisconnected = []"
    "leftTxCharacteristic halfDisconnected \<noteq> None"
    "rightTxCharacteristic halfDisconnected \<noteq> None"
    by (simp_all add: halfDisconnected_def disconnect_def connectedManager_def newManager_def)
  have a: "\<forall>k. allAcknowledged k" by (simp add: allAcknowledged_def)
  note sc = sendCommand_acked [OF a]
  have t: "G2_sendText allAcknowledged (map ucast) wrapDemo 100 100 False halfDisconnected
       = (Inr False, halfDisconnected)"
    "P2_sendText allAcknowledged (map ucast) wrapDemo 0 halfDisconnected
       = (False, halfDisconnected)"
    "P2_sendBMPImage allAcknowledged smallImage halfDisconnected = (False, halfDisconnected)"
    using h(1)
    by (simp_all add: G2_sendText_def P2_sendText_def P2_sendBMPImage_def)
  have v: "setBrightness allAcknowledged 10 False halfDisconnected
       = (Inr (), halfDisconnected\<lparr>written := [(RightArm, [0x01, 0x0A, 0x00])]\<rparr>)"
    "setSilentMode allAcknowledged True halfDisconnected
       = (Inr (), halfDisconnected\<lparr>written := [(LeftArm, [0x03, 0x0C]), (RightArm, [0x03, 0x0C])]\<rparr>)"
    "clearScreen allAcknowledged halfDisconnected
       = (Inr (), halfDisconnected\<lparr>written := [(LeftArm, [0x18]), (RightArm, [0x18])]\<rparr>)"
    "getBatteryStatus allAcknowledged halfDisconnected
       = (Inr (), halfDisconnected\<lparr>written := [(LeftArm, [0x2C, 0x01]), (RightArm, [0x2C, 0x01])]\<rparr>)"
    using h(2,3,4)
    by (simp_all add: setBrightness_def setSilentMode_def clearScreen_def getBatteryStatus_def sc
        SET_BRIGHTNESS_def SET_SILENT_MODE_def CLEAR_SCREEN_def GET_BATTERY_def)
  from h(1,2) t v show ?thesis by simp
qed

section \<open>Properties of the image transfer\<close>

lemma sendPackets_acked:
  assumes "\<forall>k. acks k"
    and "leftTxCharacteristic s \<noteq> None" and "rightTxCharacteristic s \<noteq> None"
  shows "sendPackets acks packets s =
           (Inr (), s\<lparr>written := written s @ concat (map toBothArms packets)\<rparr>)"
  using assms(2,3)
proof (induction packets arbitrary: s)
  case Nil
  then show ?case by simp
next
  case (Cons p ps)
  let ?s2 = "s\<lparr>written := written s @ toBothArms p\<rparr>"
  note sc = sendCommand_acked [OF assms(1)]
  have step: "sendPackets acks (p # ps) s = sendPackets acks ps ?s2"
    using Cons.prems by (simp add: sc toBothArms_def)
  have ih: "sendPackets acks ps ?s2 =
          (Inr (), ?s2\<lparr>written := written ?s2 @ concat (map toBothArms ps)\<rparr>)"
    using Cons.prems by (intro Cons.IH) simp_all
  show ?case unfolding step ih by simp
qed

lemma transfer_acked:
  assumes "\<forall>k. acks k"
    and "leftTxCharacteristic s \<noteq> None" and "rightTxCharacteristic s \<noteq> None"
  shows "andThen (sendPackets acks packets)
           (andThen (sendCommand acks endCommand True False)
           (andThen (sendCommand acks endCommand False True)
           (andThen (sendCommand acks crcCommand True False)
                    (sendCommand acks crcCommand False True)))) s =
         (Inr (), s\<lparr>written := written s @ concat (map toBothArms packets)
                                @ toBothArms endCommand @ toBothArms crcCommand\<rparr>)"
  using assms(2,3)
  by (simp add: andThen_def sendPackets_acked [OF assms] sendCommand_acked [OF assms(1)]
      toBothArms_def)

lemma G2_sendBMPImage_acked:
  assumes "isConnected s" and "width imageData = 576" and "height imageData = 136"
    and "\<forall>k. acks k"
    and "leftTxCharacteristic s \<noteq> None" and "rightTxCharacteristic s \<noteq> None"
  shows "G2_sendBMPImage acks imageData s =
     (True, s\<lparr>written := written s
        @ concat (map toBothArms (G2_createBMPPackets (data imageData)))
        @ toBothArms [0x20, 0x0d, 0x0e]
        @ toBothArms (0x16 # uint32ToBytes (G2_calculateCRC32
                              ([0x00, 0x1c, 0x00, 0x00] @ replicate 9792 0)))\<rparr>)"
  using assms(1,2,3)
  by (simp add: G2_sendBMPImage_def Let_def transfer_acked [OF assms(4,5,6)] CRC_CHECK_def
      convertTo1BitBMP_def)

lemma P2_sendBMPImage_acked:
  assumes "isConnected s" and "width imageData \<le> 488"
    and "\<forall>k. acks k"
    and "leftTxCharacteristic s \<noteq> None" and "rightTxCharacteristic s \<noteq> None"
  shows "P2_sendBMPImage acks imageData s =
     (True, s\<lparr>written := written s
        @ concat (map toBothArms (P2_createBMPPackets (data imageData)))
        @ toBothArms [0x20]
        @ toBothArms (0x16 # uint32ToBytes (P2_calculateCRC32 (data imageData)))\<rparr>)"
  using assms(1,2)
  by (simp add: P2_sendBMPImage_def Let_def transfer_acked [OF assms(3,4,5)] CRC_CHECK_def
      BMP_TRANSMISSION_END_def)

text \<open>
  C2, as amended. In \<^verbatim>\<open>part_002\<close>, \<open>sendBMPImage\<close> rejects at once every image whose
  declared width exceeds 488: it returns \<open>false\<close> and the session is untouched, no
  packet is made or written; an image whose width does not exceed 488 passes the
  check, and on a connected session whose writes are acknowledged its packets are
  written and the call returns \<open>true\<close>. In \<^verbatim>\<open>glasses2.ts\<close> the check is another one:
  \<open>sendBMPImage\<close> rejects at once, in the same way, every image that is not declared
  576 by 136 (one of width 500 among them), and lets an image declared 576 by 136
  through, although its width exceeds 488.
\<close>

theorem sendBMPImage_precheck:
  "(488 < width imageData \<longrightarrow> P2_sendBMPImage acks imageData s = (False, s))
   \<and> (isConnected s \<and> width imageData \<le> 488 \<and> (\<forall>k. acks k)
        \<and> leftTxCharacteristic s \<noteq> None \<and> rightTxCharacteristic s \<noteq> None \<longrightarrow>
       fst (P2_sendBMPImage acks imageData s) = True
       \<and> take (2 * length (P2_createBMPPackets (data imageData)))
               (drop (length (written s)) (written (snd (P2_sendBMPImage acks imageData s))))
           = concat (map toBothArms (P2_createBMPPackets (data imageData))))
   \<and> (width imageData \<noteq> 576 \<or> height imageData \<noteq> 136 \<longrightarrow>
       G2_sendBMPImage acks imageData s = (False, s))
   \<and> (isConnected s \<and> width imageData = 576 \<and> height imageData = 136 \<and> (\<forall>k. acks k)
        \<and> leftTxCharacteristic s \<noteq> None \<and> rightTxCharacteristic s \<noteq> None \<longrightarrow>
       fst (G2_sendBMPImage acks imageData s) = True
       \<and> take (2 * length (G2_createBMPPackets (data imageData)))
               (drop (length (written s)) (written (snd (G2_sendBMPImage acks imageData s))))
           = concat (map toBothArms (G2_createBMPPackets (data imageData))))"
proof -
  have len: "length (concat (map toBothArms ps)) = 2 * length ps" for ps
    by (induction ps) (simp_all add: toBothArms_def)
  have p1: "P2_sendBMPImage acks imageData s = (False, s)" if "488 < width imageData"
    using that by (simp add: P2_sendBMPImage_def)
  have g1: "G2_sendBMPImage acks imageData s = (False, s)"
    if "width imageData \<noteq> 576 \<or> height imageData \<noteq> 136"
    using that by (auto simp: G2_sendBMPImage_def)
  have p2: "fst (P2_sendBMPImage acks imageData s) = True
       \<and> take (2 * length (P2_createBMPPackets (data imageData)))
               (drop (length (written s)) (written (snd (P2_sendBMPImage acks imageData s))))
           = concat (map toBothArms (P2_createBMPPackets (data imageData)))"
    if "isConnected s \<and> width imageData \<le> 488 \<and> (\<forall>k. acks k)
        \<and> leftTxCharacteristic s \<noteq> None \<and> rightTxCharacteristic s \<noteq> None"
  proof -
    from that have "P2_sendBMPImage acks imageData s =
     (True, s\<lparr>written := written s
        @ concat (map toBothArms (P2_createBMPPackets (data imageData)))
        @ toBothArms [0x20]
        @ toBothArms (0x16 # uint32ToBytes (P2_calculateCRC32 (data imageData)))\<rparr>)"
      by (intro P2_sendBMPImage_acked) simp_all
    then show ?thesis by (simp add: len)
  qed
  have g2: "fst (G2_sendBMPImage acks imageData s) = True
       \<and> take (2 * length (G2_createBMPPackets (data imageData)))
               (drop (length (written s)) (written (snd (G2_sendBMPImage acks imageData s))))
           = concat (map toBothArms (G2_createBMPPackets (data imageData)))"
    if "isConnected s \<and> width imageData = 576 \<and> height imageData = 136 \<and> (\<forall>k. acks k)
        \<and> leftTxCharacteristic s \<noteq> None \<and> rightTxCharacteristic s \<noteq> None"
  proof -
    from that have "G2_sendBMPImage acks imageData s =
     (True, s\<lparr>written := written s
        @ concat (map toBothArms (G2_createBMPPackets (data imageData)))
        @ toBothArms [0x20, 0x0d, 0x0e]
        @ toBothArms (0x16 # uint32ToBytes (G2_calculateCRC32
                              ([0x00, 0x1c, 0x00, 0x00] @ replicate 9792 0)))\<rparr>)"
      by (intro G2_sendBMPImage_acked) simp_all
    then show ?thesis by (simp add: len)
  qed
  from p1 p2 g1 g2 show ?thesis by blast
qed

lemma length_toBothArms: "length (concat (map toBothArms ps)) = 2 * length ps"
  by (induction ps) (simp_all add: toBothArms_def)

theorem sendBMPImage_precheck_counterexample:
  "488 < width image576
   \<and> fst (G2_sendBMPImage allAcknowledged image576 connectedManager) = True
   \<and> length (written (snd (G2_sendBMPImage allAcknowledged image576 connectedManager))) = 108
   \<and> width demoImage \<le> 488
   \<and> G2_sendBMPImage allAcknowledged demoImage connectedManager = (False, connectedManager)"
proof -
  have a: "\<forall>k. allAcknowledged k" by (simp add: allAcknowledged_def)
  have c: "isConnected connectedManager" "leftTxCharacteristic connectedManager \<noteq> None"
    "rightTxCharacteristic connectedManager \<noteq> None" "written connectedManager = []"
    by (simp_all add: connectedManager_def newManager_def)
  have i: "width image576 = 576" "height image576 = 136" "data image576 = replicate 9846 0"
    by (simp_all add: image576_def)
  have n: "length (G2_createBMPPackets (replicate 9846 0)) = 52"
    by (simp add: G2_createBMPPackets_def G2_packetsFrom_length)
  have d: "G2_sendBMPImage allAcknowledged demoImage connectedManager = (False, connectedManager)"
    by (simp add: G2_sendBMPImage_def demoImage_def)
  show ?thesis
    using G2_sendBMPImage_acked [OF c(1) i(1,2) a c(2,3)] c(4) i n d
    by (simp add: length_toBothArms toBothArms_def demoImage_def)
qed

theorem sendBMPImage_precheck_witness:
  "P2_sendBMPImage allAcknowledged image500 connectedManager = (False, connectedManager)
   \<and> G2_sendBMPImage allAcknowledged image500 connectedManager = (False, connectedManager)
   \<and> fst (P2_sendBMPImage allAcknowledged smallImage connectedManager) = True
   \<and> take 2 (written (snd (P2_sendBMPImage allAcknowledged smallImage connectedManager)))
       = toBothArms [0x15, 0, 0x00, 0x1C, 0x00, 0x00, 0x01, 0x02, 0x03]
   \<and> fst (G2_sendBMPImage allAcknowledged image576 connectedManager) = True"
proof -
  have a: "\<forall>k. allAcknowledged k" by (simp add: allAcknowledged_def)
  have c: "isConnected connectedManager" "leftTxCharacteristic connectedManager \<noteq> None"
    "rightTxCharacteristic connectedManager \<noteq> None" "written connectedManager = []"
    by (simp_all add: connectedManager_def newManager_def)
  have p: "P2_createBMPPackets [0x01, 0x02, 0x03] = [[0x15, 0, 0x00, 0x1C, 0x00, 0x00, 0x01, 0x02, 0x03]]"
    by (simp add: P2_createBMPPackets_def P2_packetsFrom.simps jsSlice_def SEND_BITMAP_def)
  note t5 = sendBMPImage_precheck [of image500 allAcknowledged connectedManager]
  note ts = sendBMPImage_precheck [of smallImage allAcknowledged connectedManager]
  note t6 = sendBMPImage_precheck [of image576 allAcknowledged connectedManager]
  have r5: "P2_sendBMPImage allAcknowledged image500 connectedManager = (False, connectedManager)
    \<and> G2_sendBMPImage allAcknowledged image500 connectedManager = (False, connectedManager)"
    using t5 by (simp add: image500_def)
  have rs: "fst (P2_sendBMPImage allAcknowledged smallImage connectedManager) = True
   \<and> take 2 (written (snd (P2_sendBMPImage allAcknowledged smallImage connectedManager)))
       = toBothArms [0x15, 0, 0x00, 0x1C, 0x00, 0x00, 0x01, 0x02, 0x03]"
    using ts a c p by (simp add: smallImage_def)
  have r6: "fst (G2_sendBMPImage allAcknowledged image576 connectedManager) = True"
    using t6 a c by (simp add: image576_def)
  from r5 rs r6 show ?thesis by simp
qed

text \<open>
  C5. On a connected session whose writes are all acknowledged, \<open>sendBMPImage\<close> of
  \<^verbatim>\<open>part_002\<close> sends a three-byte image as one packet to each arm, then the
  one-byte frame \<open>[0x20]\<close> to each arm, then the checksum frame: the bytes \<open>0x0D\<close> and
  \<open>0x0E\<close> of the end-of-transmission marker are never written.
\<close>

theorem P2_sendBMPImage_end_marker:
  "P2_sendBMPImage allAcknowledged smallImage connectedManager =
     (True, connectedManager\<lparr>written :=
        [(LeftArm, [0x15, 0, 0x00, 0x1C, 0x00, 0x00, 0x01, 0x02, 0x03]),
         (RightArm, [0x15, 0, 0x00, 0x1C, 0x00, 0x00, 0x01, 0x02, 0x03]),
         (LeftArm, [0x20]), (RightArm, [0x20]),
         (LeftArm, [0x16, 228, 242, 150, 174]), (RightArm, [0x16, 228, 242, 150, 174])]\<rparr>)"
proof -
  have a: "\<forall>k. allAcknowledged k" by (simp add: allAcknowledged_def)
  have c: "isConnected connectedManager" "leftTxCharacteristic connectedManager \<noteq> None"
    "rightTxCharacteristic connectedManager \<noteq> None" "written connectedManager = []"
    by (simp_all add: connectedManager_def newManager_def)
  have w: "width smallImage \<le> 488" "data smallImage = [0x01, 0x02, 0x03]"
    by (simp_all add: smallImage_def)
  have p: "P2_createBMPPackets [0x01, 0x02, 0x03] = [[0x15, 0, 0x00, 0x1C, 0x00, 0x00, 0x01, 0x02, 0x03]]"
    by (simp add: P2_createBMPPackets_def P2_packetsFrom.simps jsSlice_def SEND_BITMAP_def)
  have k: "uint32ToBytes (P2_calculateCRC32 [0x01, 0x02, 0x03]) = [228, 242, 150, 174]"
    by (simp add: uint32ToBytes_def P2_calculateCRC32_def crcByte_def crcBits_8 crcShift_def
        polynomial_def)
  show ?thesis
    using P2_sendBMPImage_acked [OF c(1) w(1) a c(2,3)] c(4) w(2) p k
    by (simp add: toBothArms_def)
qed

text \<open>The sibling \<^verbatim>\<open>glasses2.ts\<close> writes the whole marker to both arms, after the last
  packet and before the checksum frame.\<close>

lemma G2_sendBMPImage_end_marker:
  assumes "isConnected s" and "width imageData = 576" and "height imageData = 136"
    and "\<forall>k. acks k"
    and "leftTxCharacteristic s \<noteq> None" and "rightTxCharacteristic s \<noteq> None"
  shows "\<exists>crcCommand. written (snd (G2_sendBMPImage acks imageData s)) =
           written s @ concat (map toBothArms (G2_createBMPPackets (data imageData)))
           @ [(LeftArm, [0x20, 0x0D, 0x0E]), (RightArm, [0x20, 0x0D, 0x0E])]
           @ toBothArms crcCommand
         \<and> hd crcCommand = 0x16"
  using G2_sendBMPImage_acked [OF assms] by (simp add: toBothArms_def)

end
